theory Spec2Isabelle
  imports Complex_Main
begin

section \<open>Python values and the operations the reader applies to them\<close>

text \<open>
  The reader of \<^verbatim>\<open>cloud_storage_file_reader.py\<close> works on dynamically typed data:
  STAC items and property filters are nested dictionaries (\<^verbatim>\<open>Dict[str, Any]\<close>), and the
  constructor checks the run-time type of its arguments with \<^verbatim>\<open>isinstance\<close>. The values
  are therefore one datatype. A dictionary is an association list in insertion order,
  its keys are strings (as in JSON). A float is a real number: the only arithmetic the
  reader applies to one is a comparison or an absolute value, both exact on IEEE
  doubles (NaN and the infinities are not represented). A datetime is its position on
  the time line, counted in microseconds.
\<close>

datatype pyval =
    PNone
  | PBool bool
  | PInt int
  | PFloat real
  | PStr string
  | PDatetime int
  | PParameterReference string
  | PList "pyval list"
  | PTuple "pyval list"
  | PDict "(string \<times> pyval) list"

datatype error =
    AssertionError
  | KeyError
  | TypeError
  | AttributeError
  | IndexError
  | StopIteration
  | ValueError
  | OverflowError

text \<open>Sequencing of steps that may raise: the first exception ends the computation.\<close>

fun bind :: "error + 'a \<Rightarrow> ('a \<Rightarrow> error + 'b) \<Rightarrow> error + 'b" where
  "bind (Inl e) f = Inl e"
| "bind (Inr x) f = f x"

text \<open>\<^verbatim>\<open>d[key]\<close> for a string key: only a dictionary can be subscripted by a string.\<close>

definition getitem :: "pyval \<Rightarrow> string \<Rightarrow> error + pyval" where
  "getitem d k =
     (case d of
        PDict kvs \<Rightarrow> (case map_of kvs k of None \<Rightarrow> Inl KeyError | Some v \<Rightarrow> Inr v)
      | _ \<Rightarrow> Inl TypeError)"

text \<open>\<^verbatim>\<open>d.get(key)\<close>: \<^verbatim>\<open>None\<close> when the key is absent; only a dictionary has the method.\<close>

definition dict_get :: "pyval \<Rightarrow> string \<Rightarrow> error + pyval" where
  "dict_get d k =
     (case d of
        PDict kvs \<Rightarrow> (case map_of kvs k of None \<Rightarrow> Inr PNone | Some v \<Rightarrow> Inr v)
      | _ \<Rightarrow> Inl AttributeError)"

text \<open>\<^verbatim>\<open>len(v)\<close>.\<close>

definition py_len :: "pyval \<Rightarrow> error + nat" where
  "py_len v =
     (case v of
        PList xs \<Rightarrow> Inr (length xs)
      | PTuple xs \<Rightarrow> Inr (length xs)
      | PStr s \<Rightarrow> Inr (length s)
      | PDict kvs \<Rightarrow> Inr (length kvs)
      | _ \<Rightarrow> Inl TypeError)"

text \<open>
  \<^verbatim>\<open>v[i]\<close> for a literal index \<open>i \<ge> 0\<close>. A dictionary of this model has string keys
  only, so an integer key is never found.
\<close>

definition py_index :: "pyval \<Rightarrow> nat \<Rightarrow> error + pyval" where
  "py_index v i =
     (case v of
        PList xs \<Rightarrow> (if i < length xs then Inr (xs ! i) else Inl IndexError)
      | PTuple xs \<Rightarrow> (if i < length xs then Inr (xs ! i) else Inl IndexError)
      | PStr s \<Rightarrow> (if i < length s then Inr (PStr [s ! i]) else Inl IndexError)
      | PDict kvs \<Rightarrow> Inl KeyError
      | _ \<Rightarrow> Inl TypeError)"

text \<open>The number a value stands for in a comparison, if it is one.\<close>

definition num_of :: "pyval \<Rightarrow> real option" where
  "num_of v =
     (case v of
        PInt i \<Rightarrow> Some (real_of_int i)
      | PFloat r \<Rightarrow> Some r
      | PBool b \<Rightarrow> Some (if b then 1 else 0)
      | _ \<Rightarrow> None)"

definition isinstance_dict :: "pyval \<Rightarrow> bool" where
  "isinstance_dict v = (case v of PDict _ \<Rightarrow> True | _ \<Rightarrow> False)"

definition isinstance_datetime :: "pyval \<Rightarrow> bool" where
  "isinstance_datetime v = (case v of PDatetime _ \<Rightarrow> True | _ \<Rightarrow> False)"

definition isinstance_ParameterReference :: "pyval \<Rightarrow> bool" where
  "isinstance_ParameterReference v = (case v of PParameterReference _ \<Rightarrow> True | _ \<Rightarrow> False)"

text \<open>\<^verbatim>\<open>d[k] = v\<close> on an insertion-ordered dictionary: an existing key keeps its place.\<close>

fun dict_set :: "(string \<times> pyval) list \<Rightarrow> string \<Rightarrow> pyval \<Rightarrow> (string \<times> pyval) list" where
  "dict_set [] k v = [(k, v)]"
| "dict_set ((k', v') # d) k v =
     (if k' = k then (k, v) # d else (k', v') # dict_set d k v)"

subsection \<open>Strings\<close>

text \<open>
  Strings are lists of 8-bit characters; \<^verbatim>\<open>str.lower\<close> is modelled on the ASCII letters.
\<close>

definition lower_char :: "char \<Rightarrow> char" where
  "lower_char c =
     (let n = (of_char c :: nat) in if 65 \<le> n \<and> n \<le> 90 then char_of (n + 32) else c)"

definition lower :: "string \<Rightarrow> string" where
  "lower s = map lower_char s"

definition startswith :: "string \<Rightarrow> string \<Rightarrow> bool" where
  "startswith s pre = (take (length pre) s = pre)"

text \<open>
  \<^verbatim>\<open>s.find(c, start)\<close> for a one-character needle: the least index \<open>\<ge> start\<close> that holds
  \<open>c\<close>, or \<open>-1\<close>.
\<close>

definition str_find :: "string \<Rightarrow> char \<Rightarrow> nat \<Rightarrow> int" where
  "str_find s c start =
     (if c \<in> set (drop start s)
      then int (start + length (takeWhile (\<lambda>x. x \<noteq> c) (drop start s)))
      else - 1)"

text \<open>\<^verbatim>\<open>s[b:e]\<close> and \<^verbatim>\<open>s[b:]\<close> for indices that are not negative.\<close>

definition slice :: "string \<Rightarrow> nat \<Rightarrow> nat \<Rightarrow> string" where
  "slice s b e = take (e - b) (drop b s)"

definition slice_from :: "string \<Rightarrow> nat \<Rightarrow> string" where
  "slice_from s b = drop b s"

text \<open>
  \<^verbatim>\<open>s.split(c)\<close>: every occurrence of \<open>c\<close> separates two fields. A character other than
  \<open>c\<close> goes in front of the first field of the rest, which always exists.
\<close>

fun str_split :: "string \<Rightarrow> char \<Rightarrow> string list" where
  "str_split [] c = [[]]"
| "str_split (x # xs) c =
     (if x = c then [] # str_split xs c
      else (case str_split xs c of
              [] \<Rightarrow> [[x]]
            | field # fields \<Rightarrow> (x # field) # fields))"

section \<open>The URL parser of the standard library\<close>

text \<open>
  \<^verbatim>\<open>urllib.parse.urlparse\<close> is not code of the reader; the reader only reads the
  \<^verbatim>\<open>scheme\<close>, \<^verbatim>\<open>hostname\<close> and \<^verbatim>\<open>path\<close> of its result. The model below follows
  \<^verbatim>\<open>urlsplit\<close> and \<^verbatim>\<open>urlparse\<close> of CPython 3.12 step by step on ASCII strings: first
  the components of a URL, then the \<^verbatim>\<open>ValueError\<close> that the library raises for a
  malformed network location. The general theorems about the reader's URL functions
  are stated in terms of the components of the parse result.
\<close>

record ParseResult =
  scheme :: string
  netloc :: string
  path :: string
  params :: string
  query :: string
  fragment :: string

definition scheme_chars :: string where
  "scheme_chars =
     ''abcdefghijklmnopqrstuvwxyzABCDEFGHIJKLMNOPQRSTUVWXYZ0123456789+-.''"

definition uses_params :: "string list" where
  "uses_params =
     ['''', ''ftp'', ''hdl'', ''prospero'', ''http'', ''imap'', ''https'', ''shttp'',
      ''rtsp'', ''rtspu'', ''sip'', ''sips'', ''mms'', ''sftp'', ''tel'']"

definition isalpha :: "char \<Rightarrow> bool" where
  "isalpha c =
     (let n = (of_char c :: nat) in (65 \<le> n \<and> n \<le> 90) \<or> (97 \<le> n \<and> n \<le> 122))"

text \<open>\<^verbatim>\<open>s.partition(c)\<close>, as the text before the first \<open>c\<close> and the text after it.\<close>

definition before :: "char \<Rightarrow> string \<Rightarrow> string" where
  "before c s = takeWhile (\<lambda>x. x \<noteq> c) s"

definition after :: "char \<Rightarrow> string \<Rightarrow> string" where
  "after c s = drop 1 (dropWhile (\<lambda>x. x \<noteq> c) s)"

text \<open>
  The scheme is the text before the first colon when that text starts with a letter and
  holds scheme characters only; it is lower-cased.
\<close>

definition split_scheme :: "string \<Rightarrow> string \<times> string" where
  "split_scheme url =
     (let i = str_find url CHR '':'' 0 in
      if i > 0 \<and> isalpha (hd url) \<and> (\<forall>c \<in> set (take (nat i) url). c \<in> set scheme_chars)
      then (lower (take (nat i) url), drop (nat i + 1) url)
      else ('''', url))"

text \<open>After \<^verbatim>\<open>//\<close> the network location runs up to the first of \<^verbatim>\<open>/\<close>, \<^verbatim>\<open>?\<close>, \<^verbatim>\<open>#\<close>.\<close>

definition netloc_delim :: "char \<Rightarrow> bool" where
  "netloc_delim c = (c = CHR ''/'' \<or> c = CHR ''?'' \<or> c = CHR ''#'')"

definition splitnetloc :: "string \<Rightarrow> string \<times> string" where
  "splitnetloc url =
     (if take 2 url = ''//''
      then (takeWhile (\<lambda>c. \<not> netloc_delim c) (drop 2 url),
            dropWhile (\<lambda>c. \<not> netloc_delim c) (drop 2 url))
      else ('''', url))"

definition split_at :: "char \<Rightarrow> string \<Rightarrow> string \<times> string" where
  "split_at c url = (if c \<in> set url then (before c url, after c url) else (url, ''''))"

text \<open>
  \<^verbatim>\<open>_splitparams\<close>: the parameters are what follows the first semicolon of the last
  path segment.
\<close>

definition splitparams :: "string \<Rightarrow> string \<times> string" where
  "splitparams url =
     (if CHR ''/'' \<in> set url
      then (let k = length url - 1 - length (takeWhile (\<lambda>x. x \<noteq> CHR ''/'') (rev url));
                seg = drop k url
            in if CHR '';'' \<in> set seg
               then (take k url @ before CHR '';'' seg, after CHR '';'' seg)
               else (url, ''''))
      else (before CHR '';'' url, after CHR '';'' url))"

definition url_components :: "string \<Rightarrow> ParseResult" where
  "url_components url =
     (let url1 = dropWhile (\<lambda>c. (of_char c :: nat) \<le> 32) url;
          url2 = filter (\<lambda>c. c \<notin> set [CHR 0x09, CHR 0x0D, CHR 0x0A]) url1;
          (sch, url3) = split_scheme url2;
          (loc, url4) = splitnetloc url3;
          (url5, frag) = split_at CHR ''#'' url4;
          (url6, qry) = split_at CHR ''?'' url5;
          (url7, prm) = (if sch \<in> set uses_params \<and> CHR '';'' \<in> set url6
                         then splitparams url6 else (url6, ''''))
      in \<lparr>scheme = sch, netloc = loc, path = url7, params = prm, query = qry,
           fragment = frag\<rparr>)"

text \<open>
  The library raises \<^verbatim>\<open>ValueError\<close> when the network location has one of the brackets
  \<^verbatim>\<open>[\<close> and \<^verbatim>\<open>]\<close> without the other. When it has both, the library validates it, and
  what it accepts differs between releases: none validated before 3.11.4, later ones
  require an IPv6 or IPvFuture address between the brackets, the latest also reject text
  around the brackets. That validation is the parameter \<open>check_bracketed_netloc\<close>, true
  for a network location that the library accepts. (The one other \<^verbatim>\<open>ValueError\<close> of the
  library is for characters outside ASCII in the network location.)
\<close>

definition urlparse :: "(string \<Rightarrow> bool) \<Rightarrow> string \<Rightarrow> error + ParseResult" where
  "urlparse check_bracketed_netloc url =
     (let p = url_components url; loc = netloc p in
      if (CHR ''['' \<in> set loc \<and> CHR '']'' \<notin> set loc)
         \<or> (CHR '']'' \<in> set loc \<and> CHR ''['' \<notin> set loc)
      then Inl ValueError
      else if CHR ''['' \<in> set loc \<and> CHR '']'' \<in> set loc \<and> \<not> check_bracketed_netloc loc
      then Inl ValueError
      else Inr p)"

text \<open>
  The \<^verbatim>\<open>hostname\<close> property: the network location without user information and
  port, lower-cased up to a zone identifier; \<^verbatim>\<open>None\<close> when it is empty.
\<close>

definition hostname :: "ParseResult \<Rightarrow> string option" where
  "hostname p =
     (let hostinfo = rev (before CHR ''@'' (rev (netloc p)));
          h = (if CHR ''['' \<in> set hostinfo
               then before CHR '']'' (after CHR ''['' hostinfo)
               else before CHR '':'' hostinfo)
      in if h = [] then None
         else Some (lower (before CHR ''%'' h) @ dropWhile (\<lambda>x. x \<noteq> CHR ''%'') h))"

section \<open>URL helpers of the reader\<close>

text \<open>
  \<^verbatim>\<open>_extract_bucket_name_from_url\<close>. The scheme of a parse result is never \<^verbatim>\<open>None\<close>, so
  the first conjunct of the source's test is always true; \<^verbatim>\<open>isinstance(hostname, str)\<close>
  is the test that there is a hostname.
\<close>

definition extract_bucket_name_from_url :: "(string \<Rightarrow> bool) \<Rightarrow> string \<Rightarrow> error + string" where
  "extract_bucket_name_from_url check_bracketed_netloc url =
     bind (urlparse check_bracketed_netloc url) (\<lambda>url_parsed.
       if lower (scheme url_parsed) = ''s3'' \<and> hostname url_parsed \<noteq> None
       then Inr (the (hostname url_parsed))
       else
         (let begin_bucket_name = 1;
              end_bucket_name = str_find (path url_parsed) CHR ''/'' begin_bucket_name
          in if \<not> end_bucket_name > int begin_bucket_name then Inl AssertionError
             else Inr (slice (path url_parsed) begin_bucket_name (nat end_bucket_name))))"

text \<open>\<^verbatim>\<open>_get_object\<close>.\<close>

definition get_object :: "(string \<Rightarrow> bool) \<Rightarrow> string \<Rightarrow> error + string" where
  "get_object check_bracketed_netloc url =
     bind (urlparse check_bracketed_netloc url) (\<lambda>url_parsed.
       let begin_bucket_name = 1;
           slash_index = str_find (path url_parsed) CHR ''/'' begin_bucket_name + 1
       in if \<not> slash_index > int begin_bucket_name then Inl AssertionError
          else Inr (slice_from (path url_parsed) (nat slash_index)))"

text \<open>\<^verbatim>\<open>_convert_https_to_s3\<close>.\<close>

definition convert_https_to_s3 :: "(string \<Rightarrow> bool) \<Rightarrow> string \<Rightarrow> error + string" where
  "convert_https_to_s3 check_bracketed_netloc url =
     (if \<not> startswith (lower url) ''http'' then Inl AssertionError
      else bind (extract_bucket_name_from_url check_bracketed_netloc url) (\<lambda>bucket.
           bind (get_object check_bracketed_netloc url) (\<lambda>object.
             Inr (''s3://'' @ bucket @ ''/'' @ object))))"

section \<open>Dimension metadata of a STAC item\<close>

text \<open>\<^verbatim>\<open>d.values()\<close> and \<^verbatim>\<open>d.items()\<close>, in insertion order.\<close>

definition dict_values :: "pyval \<Rightarrow> error + pyval list" where
  "dict_values d = (case d of PDict kvs \<Rightarrow> Inr (map snd kvs) | _ \<Rightarrow> Inl AttributeError)"

definition dict_items :: "pyval \<Rightarrow> error + (string \<times> pyval) list" where
  "dict_items d = (case d of PDict kvs \<Rightarrow> Inr kvs | _ \<Rightarrow> Inl AttributeError)"

text \<open>
  \<^verbatim>\<open>item["properties"]["cube:dimensions"]\<close>, the first two statements of every
  dimension helper.
\<close>

definition cube_dimensions :: "pyval \<Rightarrow> error + pyval" where
  "cube_dimensions item =
     bind (getitem item ''properties'') (\<lambda>item_prop. getitem item_prop ''cube:dimensions'')"



text \<open>
  The double nearest to an integer \<open>n \<ge> 0\<close>, as an integer: a double holds 53 bits, the
  lower bits are rounded away, a tie going to the even neighbour.
\<close>

function drop_bits :: "int \<Rightarrow> nat" where
  "drop_bits n = (if n < 2 ^ 53 then 0 else Suc (drop_bits (n div 2)))"
  by pat_completeness auto
termination
  by (relation "measure nat") auto

declare drop_bits.simps [simp del]

definition int_to_double :: "int \<Rightarrow> int" where
  "int_to_double n =
     (let e = drop_bits n; q = n div 2 ^ e; r = n mod 2 ^ e
      in if 2 * r > 2 ^ e \<or> (2 * r = 2 ^ e \<and> odd q) then (q + 1) * 2 ^ e else q * 2 ^ e)"

text \<open>
  \<^verbatim>\<open>float(np.abs(step))\<close>. numpy, with its 64-bit default integer, takes a Python integer
  as a signed 64-bit integer when it fits, where the absolute value of \<^verbatim>\<open>-2**63\<close> is
  \<^verbatim>\<open>-2**63\<close> again; as an unsigned 64-bit integer when that fits; and as a Python object
  otherwise, whose conversion to a float raises \<^verbatim>\<open>OverflowError\<close> beyond the range of a
  double. The absolute value of a float is exact, and \<^verbatim>\<open>True\<close> and \<^verbatim>\<open>False\<close> count as 1
  and 0. What numpy makes of a value that is no number depends on the value and on the
  release (an error for a string or a mapping, a float for a sequence that holds one
  number): that is the parameter \<open>abs_of_other\<close>.
\<close>

definition float_abs :: "(pyval \<Rightarrow> error + pyval) \<Rightarrow> pyval \<Rightarrow> error + pyval" where
  "float_abs abs_of_other v =
     (case v of
        PFloat r \<Rightarrow> Inr (PFloat \<bar>r\<bar>)
      | PBool b \<Rightarrow> Inr (PFloat (if b then 1 else 0))
      | PInt i \<Rightarrow>
          if - (2 ^ 63) \<le> i \<and> i < 2 ^ 63
          then Inr (PFloat (if i = - (2 ^ 63) then - (2 ^ 63)
                            else real_of_int (int_to_double \<bar>i\<bar>)))
          else if 0 \<le> i \<and> i < 2 ^ 64
          then Inr (PFloat (real_of_int (int_to_double i)))
          else if int_to_double \<bar>i\<bar> \<ge> 2 ^ 1024 then Inl OverflowError
          else Inr (PFloat (real_of_int (int_to_double \<bar>i\<bar>)))
      | _ \<Rightarrow> abs_of_other v)"

text \<open>\<^verbatim>\<open>_get_resolution\<close>.\<close>

fun get_resolution_loop ::
  "(pyval \<Rightarrow> error + pyval) \<Rightarrow> pyval list \<Rightarrow> pyval \<Rightarrow> error + pyval" where
  "get_resolution_loop abs_of_other [] resolution = Inr resolution"
| "get_resolution_loop abs_of_other (v # vs) resolution =
     bind (dict_get v ''step'')
       (\<lambda>step. if step \<noteq> PNone
               then bind (float_abs abs_of_other step)
                      (\<lambda>r. get_resolution_loop abs_of_other vs r)
               else get_resolution_loop abs_of_other vs resolution)"

definition get_resolution :: "(pyval \<Rightarrow> error + pyval) \<Rightarrow> pyval \<Rightarrow> error + pyval" where
  "get_resolution abs_of_other item =
     bind (cube_dimensions item) (\<lambda>cube_dims.
     bind (dict_values cube_dims) (\<lambda>vs. get_resolution_loop abs_of_other vs PNone))"

text \<open>
  \<^verbatim>\<open>_get_dimension_name\<close>. The body of the \<^verbatim>\<open>while\<close> loop, for the entry \<open>(k, v)\<close>: two
  \<^verbatim>\<open>if\<close> statements, one after the other, each of which sets the name and the flag. A
  field of an entry equals the requested string when it is that string.
\<close>

definition dimension_step ::
  "string \<Rightarrow> pyval \<Rightarrow> string option \<Rightarrow> string option \<Rightarrow> bool \<times> string option
     \<Rightarrow> error + bool \<times> string option" where
  "dimension_step k v axis dim_type state =
     bind (dict_get v ''axis'') (\<lambda>original_axis.
       let state1 = (if axis \<noteq> None \<and> original_axis \<noteq> PNone
                        \<and> original_axis = PStr (the axis)
                     then (True, Some k) else state)
       in if dim_type \<noteq> None
          then bind (dict_get v ''type'') (\<lambda>original_type.
                 Inr (if original_type \<noteq> PNone \<and> original_type = PStr (the dim_type)
                      then (True, Some k) else state1))
          else Inr state1)"

text \<open>
  The loop runs on the index \<open>i\<close> and the flag \<^verbatim>\<open>found\<close> (initially \<^verbatim>\<open>None\<close>, which counts
  as false), and ends at the end of the list or when the flag is set.
\<close>

function get_dimension_name_loop ::
  "(string \<times> pyval) list \<Rightarrow> string option \<Rightarrow> string option \<Rightarrow> nat \<Rightarrow> bool \<Rightarrow> string option
     \<Rightarrow> error + string option" where
  "get_dimension_name_loop dim_list axis dim_type i found dimension_name =
     (if i < length dim_list \<and> \<not> found
      then
        bind (dimension_step (fst (dim_list ! i)) (snd (dim_list ! i)) axis dim_type
                (found, dimension_name))
          (\<lambda>(found', dimension_name').
             get_dimension_name_loop dim_list axis dim_type (i + 1) found' dimension_name')
      else Inr dimension_name)"
  by pat_completeness auto
termination
proof (relation "measure (\<lambda>(dim_list, axis, dim_type, i, found, dimension_name). length dim_list - i)")
qed auto

declare get_dimension_name_loop.simps [simp del]

definition get_dimension_name :: "pyval \<Rightarrow> string option \<Rightarrow> string option \<Rightarrow> error + string option" where
  "get_dimension_name item axis dim_type =
     bind (cube_dimensions item) (\<lambda>cube_dims.
       if \<not> isinstance_dict cube_dims then Inl AssertionError
       else if \<not> (axis \<noteq> None \<or> dim_type \<noteq> None) then Inl AssertionError
       else bind (dict_items cube_dims) (\<lambda>dim_list.
              get_dimension_name_loop dim_list axis dim_type 0 False None))"

section \<open>The reader and its constructor\<close>

text \<open>
  The two functions of \<^verbatim>\<open>object_storage_util\<close> that the constructor calls are not part
  of the reader's file: the credential provider, keyed by the bucket name, which returns
  a dictionary with the entries \<^verbatim>\<open>endpoint\<close>, \<^verbatim>\<open>access_key_id\<close> and \<^verbatim>\<open>secret_access_key\<close>
  or raises, and the parser of the region of an endpoint. They are parameters of the
  model, as is the validation of bracketed network locations by the URL parser.
\<close>

record object_storage_util =
  get_credentials_by_bucket :: "string \<Rightarrow> error + pyval"
  parse_region :: "string \<Rightarrow> error + pyval"

record reader =
  items :: pyval
  bbox :: pyval
  bands :: pyval
  temporal_extent :: pyval
  bucket :: string
  stored_endpoint :: pyval
  access_key_id :: pyval
  secret_access_key :: pyval
  region :: pyval
  properties :: pyval

definition py_assert :: "bool \<Rightarrow> error + unit" where
  "py_assert b = (if b then Inr () else Inl AssertionError)"

text \<open>Lines 42--43: \<^verbatim>\<open>items\<close> is a list and has an element.\<close>

definition check_items :: "pyval \<Rightarrow> error + unit" where
  "check_items its =
     (case its of
        PList xs \<Rightarrow> py_assert (length xs > 0)
      | _ \<Rightarrow> Inl AssertionError)"

text \<open>
  A chained comparison \<^verbatim>\<open>lo <= a <= b <= hi\<close> evaluates from the left and stops at the
  first false link; comparing a value that is no number raises.
\<close>

definition chain_le :: "real \<Rightarrow> pyval \<Rightarrow> pyval \<Rightarrow> real \<Rightarrow> error + bool" where
  "chain_le lo a b hi =
     (case num_of a of
        None \<Rightarrow> Inl TypeError
      | Some x \<Rightarrow>
          if \<not> lo \<le> x then Inr False
          else (case num_of b of
                  None \<Rightarrow> Inl TypeError
                | Some y \<Rightarrow> if \<not> x \<le> y then Inr False else Inr (y \<le> hi)))"

text \<open>Lines 46--50: \<^verbatim>\<open>bbox\<close> is a tuple of four numbers in order and in range.\<close>

definition check_bbox :: "pyval \<Rightarrow> error + unit" where
  "check_bbox b =
     (case b of
        PTuple xs \<Rightarrow>
          if \<not> length xs = 4 then Inl AssertionError
          else
            (let west = xs ! 0; south = xs ! 1; east = xs ! 2; north = xs ! 3 in
             bind (chain_le (- 180) west east 180) (\<lambda>ok.
             bind (py_assert ok) (\<lambda>_.
             bind (chain_le (- 90) south north 90) (\<lambda>ok. py_assert ok))))
      | _ \<Rightarrow> Inl AssertionError)"

text \<open>
  Lines 53--59: a temporal extent that is \<^verbatim>\<open>None\<close> or empty is not checked; otherwise
  its first element is a datetime and its second element is \<^verbatim>\<open>None\<close> or a datetime
  that is not earlier.
\<close>

definition datetime_of :: "pyval \<Rightarrow> int" where
  "datetime_of v = (case v of PDatetime t \<Rightarrow> t | _ \<Rightarrow> 0)"

definition check_temporal_extent :: "pyval \<Rightarrow> error + unit" where
  "check_temporal_extent te =
     (if te = PNone then Inr ()
      else
        bind (py_len te) (\<lambda>n.
          if \<not> n > 0 then Inr ()
          else
            bind (py_index te 0) (\<lambda>t0.
            bind (py_assert (isinstance_datetime t0)) (\<lambda>_.
            bind (py_index te 1) (\<lambda>t1.
              if t1 = PNone then Inr ()
              else
                bind (py_assert (isinstance_datetime t1)) (\<lambda>_.
                py_assert (datetime_of t0 \<le> datetime_of t1)))))))"

text \<open>\<^verbatim>\<open>next(iter(xs))\<close>.\<close>

definition next_iter :: "'a list \<Rightarrow> error + 'a" where
  "next_iter xs = (case xs of [] \<Rightarrow> Inl StopIteration | x # _ \<Rightarrow> Inr x)"

text \<open>\<^verbatim>\<open>s.lower()\<close> on a value: only a string has the method.\<close>

definition str_lower :: "pyval \<Rightarrow> error + string" where
  "str_lower v = (case v of PStr s \<Rightarrow> Inr (lower s) | _ \<Rightarrow> Inl AttributeError)"

text \<open>The truth value of a Python value.\<close>

definition truthy :: "pyval \<Rightarrow> bool" where
  "truthy v =
     (case v of
        PNone \<Rightarrow> False
      | PBool b \<Rightarrow> b
      | PInt i \<Rightarrow> i \<noteq> 0
      | PFloat r \<Rightarrow> r \<noteq> 0
      | PStr s \<Rightarrow> s \<noteq> []
      | PDatetime t \<Rightarrow> True
      | PParameterReference n \<Rightarrow> True
      | PList xs \<Rightarrow> xs \<noteq> []
      | PTuple xs \<Rightarrow> xs \<noteq> []
      | PDict kvs \<Rightarrow> kvs \<noteq> [])"

text \<open>
  Lines 61--64: the bucket of the first asset of the first item. On a \<^verbatim>\<open>href\<close> that is
  no string the URL parser raises \<^verbatim>\<open>AttributeError\<close> when it tries to decode it, unless
  the value counts as false: then the parser returns empty byte strings and the search
  for the separator raises \<^verbatim>\<open>TypeError\<close>.
\<close>

definition first_bucket :: "(string \<Rightarrow> bool) \<Rightarrow> pyval \<Rightarrow> error + string" where
  "first_bucket check_bracketed_netloc its =
     bind (py_index its 0) (\<lambda>item0.
     bind (getitem item0 ''assets'') (\<lambda>assets.
     bind (dict_values assets) (\<lambda>vs.
     bind (next_iter vs) (\<lambda>asset_values.
     bind (getitem asset_values ''href'') (\<lambda>href.
       case href of
         PStr url \<Rightarrow> extract_bucket_name_from_url check_bracketed_netloc url
       | _ \<Rightarrow> Inl (if truthy href then AttributeError else TypeError))))))"

text \<open>\<^verbatim>\<open>__init__\<close>.\<close>

definition init ::
  "(string \<Rightarrow> bool) \<Rightarrow> object_storage_util \<Rightarrow> pyval \<Rightarrow> pyval \<Rightarrow> pyval \<Rightarrow> pyval \<Rightarrow> pyval
     \<Rightarrow> error + reader" where
  "init check_bracketed_netloc util its bnds bb te props =
     bind (check_items its) (\<lambda>_.
     bind (check_bbox bb) (\<lambda>_.
     bind (check_temporal_extent te) (\<lambda>_.
     bind (first_bucket check_bracketed_netloc its) (\<lambda>bkt.
     bind (get_credentials_by_bucket util bkt) (\<lambda>credentials.
     bind (getitem credentials ''endpoint'') (\<lambda>ep.
     bind (getitem credentials ''access_key_id'') (\<lambda>ak.
     bind (getitem credentials ''secret_access_key'') (\<lambda>sk.
     bind (str_lower ep) (\<lambda>lowered.
     bind (parse_region util lowered) (\<lambda>rg.
       Inr \<lparr>items = its, bbox = bb, bands = bnds, temporal_extent = te, bucket = bkt,
            stored_endpoint = ep, access_key_id = ak, secret_access_key = sk,
            region = rg, properties = props\<rparr>))))))))))"

text \<open>The property \<^verbatim>\<open>endpoint\<close>.\<close>

definition endpoint :: "reader \<Rightarrow> error + string" where
  "endpoint r = str_lower (stored_endpoint r)"

section \<open>Filters on extra dimensions\<close>

text \<open>
  The body of the inner loop, the same in \<^verbatim>\<open>get_extra_dimensions_filter\<close> and in
  \<^verbatim>\<open>_filter_by_extra_dimensions\<close>: the process id of a node and the value it compares
  with.
\<close>

definition node_filter :: "pyval \<Rightarrow> error + pyval \<times> pyval" where
  "node_filter process_graph_values =
     bind (getitem process_graph_values ''process_id'') (\<lambda>process_id.
     bind (getitem process_graph_values ''arguments'') (\<lambda>arguments.
     bind (getitem arguments ''x'') (\<lambda>x.
     bind (if isinstance_ParameterReference x then getitem arguments ''y''
           else getitem arguments ''x'') (\<lambda>v.
       Inr (process_id, v)))))"

definition is_equality :: "pyval \<Rightarrow> bool" where
  "is_equality process_id = (process_id \<in> set [PStr ''eq'', PStr ''=''])"

text \<open>
  The head of the outer loop body: the dimension name and the nodes of a property
  whose name starts with \<^verbatim>\<open>cube:dimensions\<close>.
\<close>

definition dimension_property :: "string \<Rightarrow> pyval \<Rightarrow> error + string \<times> pyval list" where
  "dimension_property property_name property_values =
     (let fields = str_split property_name CHR ''.'' in
      bind (py_assert (length fields \<ge> 2)) (\<lambda>_.
      bind (getitem property_values ''process_graph'') (\<lambda>process_graph.
      bind (py_assert (isinstance_dict process_graph)) (\<lambda>_.
      bind (dict_values process_graph) (\<lambda>nodes. Inr (fields ! 1, nodes))))))"

text \<open>\<^verbatim>\<open>get_extra_dimensions_filter\<close>.\<close>

fun filter_nodes ::
  "string \<Rightarrow> pyval list \<Rightarrow> (string \<times> pyval) list \<Rightarrow> error + (string \<times> pyval) list" where
  "filter_nodes dimension_name [] extra_dim_filter = Inr extra_dim_filter"
| "filter_nodes dimension_name (n # ns) extra_dim_filter =
     bind (node_filter n) (\<lambda>(process_id, v).
       filter_nodes dimension_name ns
         (if is_equality process_id then dict_set extra_dim_filter dimension_name v
          else extra_dim_filter))"

fun filter_properties ::
  "(string \<times> pyval) list \<Rightarrow> (string \<times> pyval) list \<Rightarrow> error + (string \<times> pyval) list" where
  "filter_properties [] extra_dim_filter = Inr extra_dim_filter"
| "filter_properties ((property_name, property_values) # ps) extra_dim_filter =
     (if startswith property_name ''cube:dimensions''
      then bind (dimension_property property_name property_values) (\<lambda>(dimension_name, nodes).
           bind (filter_nodes dimension_name nodes extra_dim_filter) (\<lambda>f.
             filter_properties ps f))
      else filter_properties ps extra_dim_filter)"

definition get_extra_dimensions_filter :: "reader \<Rightarrow> error + pyval" where
  "get_extra_dimensions_filter r =
     (case properties r of
        PDict ps \<Rightarrow> bind (filter_properties ps []) (\<lambda>f. Inr (PDict f))
      | _ \<Rightarrow> Inr (PDict []))"

text \<open>
  \<^verbatim>\<open>_filter_by_extra_dimensions\<close>. The selection \<^verbatim>\<open>dataset.sel({name: [value]})\<close> belongs to
  the array library; it is the parameter \<open>sel\<close>, on any type of datasets.
\<close>

fun select_nodes ::
  "('d \<Rightarrow> string \<Rightarrow> pyval \<Rightarrow> error + 'd) \<Rightarrow> string \<Rightarrow> pyval list \<Rightarrow> 'd \<Rightarrow> error + 'd" where
  "select_nodes sel dimension_name [] dataset = Inr dataset"
| "select_nodes sel dimension_name (n # ns) dataset =
     bind (node_filter n) (\<lambda>(process_id, v).
       if is_equality process_id
       then bind (sel dataset dimension_name v) (\<lambda>d. select_nodes sel dimension_name ns d)
       else select_nodes sel dimension_name ns dataset)"

fun select_properties ::
  "('d \<Rightarrow> string \<Rightarrow> pyval \<Rightarrow> error + 'd) \<Rightarrow> (string \<times> pyval) list \<Rightarrow> 'd \<Rightarrow> error + 'd" where
  "select_properties sel [] dataset = Inr dataset"
| "select_properties sel ((property_name, property_values) # ps) dataset =
     (if startswith property_name ''cube:dimensions''
      then bind (dimension_property property_name property_values) (\<lambda>(dimension_name, nodes).
           bind (select_nodes sel dimension_name nodes dataset) (\<lambda>d.
             select_properties sel ps d))
      else select_properties sel ps dataset)"

definition filter_by_extra_dimensions ::
  "('d \<Rightarrow> string \<Rightarrow> pyval \<Rightarrow> error + 'd) \<Rightarrow> reader \<Rightarrow> 'd \<Rightarrow> error + 'd" where
  "filter_by_extra_dimensions sel r dataset =
     (case properties r of
        PDict ps \<Rightarrow> select_properties sel ps dataset
      | _ \<Rightarrow> Inr dataset)"

section \<open>The filesystem handle\<close>

text \<open>The arguments that \<^verbatim>\<open>create_s3filesystem\<close> passes to \<^verbatim>\<open>s3fs.S3FileSystem\<close>.\<close>

record S3FileSystem =
  anon :: bool
  endpoint_url :: string
  key :: pyval
  secret :: pyval

definition create_s3filesystem :: "reader \<Rightarrow> error + S3FileSystem" where
  "create_s3filesystem r =
     bind (endpoint r) (\<lambda>ep.
       let url = (if startswith ep ''https://'' then ep else ''https://'' @ ep)
       in Inr \<lparr>anon = False, endpoint_url = url, key = access_key_id r,
               secret = secret_access_key r\<rparr>)"

section \<open>Notions used to state the properties\<close>

text \<open>
  A dictionary whose values are dictionaries, given by the entries of each value: the
  shape of \<^verbatim>\<open>cube:dimensions\<close>, where every dimension is described by a mapping.
\<close>

definition mappings :: "(string \<times> (string \<times> pyval) list) list \<Rightarrow> (string \<times> pyval) list" where
  "mappings ds = map (\<lambda>(k, fs). (k, PDict fs)) ds"

text \<open>The field of an entry; \<^verbatim>\<open>None\<close> stands for a field that the entry lacks.\<close>

definition entry_field :: "(string \<times> pyval) list \<Rightarrow> string \<Rightarrow> pyval" where
  "entry_field fs k = (case map_of fs k of None \<Rightarrow> PNone | Some v \<Rightarrow> v)"

text \<open>
  An entry matches a request when its \<^verbatim>\<open>axis\<close> is the requested axis or its \<^verbatim>\<open>type\<close> is
  the requested dimension type.
\<close>

definition entry_matches :: "string option \<Rightarrow> string option \<Rightarrow> (string \<times> pyval) list \<Rightarrow> bool" where
  "entry_matches axis dim_type fs =
     ((case axis of None \<Rightarrow> False | Some a \<Rightarrow> entry_field fs ''axis'' = PStr a)
      \<or> (case dim_type of None \<Rightarrow> False | Some t \<Rightarrow> entry_field fs ''type'' = PStr t))"



text \<open>An endpoint names a scheme when it contains \<^verbatim>\<open>://\<close>.\<close>

fun has_scheme :: "string \<Rightarrow> bool" where
  "has_scheme [] = False"
| "has_scheme (c # cs) = (startswith (c # cs) ''://'' \<or> has_scheme cs)"

section \<open>The property filter as the specification words it\<close>

text \<open>
  The specification describes the result of \<^verbatim>\<open>get_extra_dimensions_filter\<close> without the
  loops: among the properties whose key starts with \<^verbatim>\<open>cube:dimensions\<close>, the dimension
  name is the second dot-separated segment of the key; every node of the process graph
  whose process id is \<^verbatim>\<open>eq\<close> or \<^verbatim>\<open>=\<close> binds that name to the argument \<^verbatim>\<open>y\<close> if the
  argument \<^verbatim>\<open>x\<close> is a parameter reference and to \<^verbatim>\<open>x\<close> otherwise. The functions below
  read these parts off a property; \<open>or_none\<close> makes the reading total.
\<close>

definition or_none :: "error + pyval \<Rightarrow> pyval" where
  "or_none m = (case m of Inl e \<Rightarrow> PNone | Inr v \<Rightarrow> v)"

definition spec_dimension_name :: "string \<Rightarrow> string" where
  "spec_dimension_name property_name = str_split property_name CHR ''.'' ! 1"

definition spec_nodes :: "pyval \<Rightarrow> pyval list" where
  "spec_nodes property_values =
     (case or_none (getitem property_values ''process_graph'') of
        PDict g \<Rightarrow> map snd g
      | _ \<Rightarrow> [])"

definition spec_is_equality :: "pyval \<Rightarrow> bool" where
  "spec_is_equality n =
     (or_none (getitem n ''process_id'') = PStr ''eq''
      \<or> or_none (getitem n ''process_id'') = PStr ''='')"

definition spec_value :: "pyval \<Rightarrow> pyval" where
  "spec_value n =
     (let arguments = or_none (getitem n ''arguments'');
          x = or_none (getitem arguments ''x'')
      in if isinstance_ParameterReference x then or_none (getitem arguments ''y'') else x)"

definition spec_bindings :: "(string \<times> pyval) list \<Rightarrow> (string \<times> pyval) list" where
  "spec_bindings ps =
     concat (map (\<lambda>(property_name, property_values).
                    if startswith property_name ''cube:dimensions''
                    then map (\<lambda>n. (spec_dimension_name property_name, spec_value n))
                           (filter spec_is_equality (spec_nodes property_values))
                    else [])
                 ps)"

text \<open>
  A node is well formed when it has a process id and arguments with an \<^verbatim>\<open>x\<close>, and with
  a \<^verbatim>\<open>y\<close> if \<^verbatim>\<open>x\<close> is a parameter reference; a property when its key has two segments
  and its process graph is a mapping of well-formed nodes. Only the properties whose
  key starts with \<^verbatim>\<open>cube:dimensions\<close> have to be well formed.
\<close>

definition wf_node :: "pyval \<Rightarrow> bool" where
  "wf_node n =
     (\<not> isl (getitem n ''process_id'')
      \<and> (case getitem n ''arguments'' of
            Inl e \<Rightarrow> False
          | Inr arguments \<Rightarrow>
              (case getitem arguments ''x'' of
                 Inl e \<Rightarrow> False
               | Inr x \<Rightarrow> isinstance_ParameterReference x
                           \<longrightarrow> \<not> isl (getitem arguments ''y''))))"

definition wf_property :: "string \<Rightarrow> pyval \<Rightarrow> bool" where
  "wf_property property_name property_values =
     (length (str_split property_name CHR ''.'') \<ge> 2
      \<and> (case getitem property_values ''process_graph'' of
            Inr (PDict g) \<Rightarrow> list_all wf_node (map snd g)
          | _ \<Rightarrow> False))"

definition wf_properties :: "(string \<times> pyval) list \<Rightarrow> bool" where
  "wf_properties ps =
     list_all (\<lambda>(property_name, property_values).
                 startswith property_name ''cube:dimensions''
                 \<longrightarrow> wf_property property_name property_values) ps"

text \<open>Recording bindings one after the other in a dictionary.\<close>

definition record_all :: "(string \<times> pyval) list \<Rightarrow> (string \<times> pyval) list \<Rightarrow> (string \<times> pyval) list" where
  "record_all f bs = foldl (\<lambda>d (k, v). dict_set d k v) f bs"

section \<open>Example inputs\<close>

text \<open>
  A STAC item with two spatial dimensions, each with a step and a reference system,
  and a temporal dimension with neither.
\<close>

definition example_item :: pyval where
  "example_item =
     PDict [(''id'', PStr ''scene''),
            (''properties'', PDict [(''cube:dimensions'', PDict [
               (''x'', PDict [(''axis'', PStr ''x''), (''step'', PFloat (- 10)),
                              (''reference_system'', PInt 4326)]),
               (''y'', PDict [(''axis'', PStr ''y''), (''step'', PInt (- 20)),
                              (''reference_system'', PInt 32633)]),
               (''time'', PDict [(''type'', PStr ''temporal'')])])])]"


definition least_step_item :: pyval where
  "least_step_item =
     PDict [(''properties'', PDict [(''cube:dimensions'', PDict [
               (''x'', PDict [(''axis'', PStr ''x''), (''step'', PInt 10)]),
               (''y'', PDict [(''axis'', PStr ''y''),
                              (''step'', PInt (- 9223372036854775808))])])])]"

definition numbers_only :: "pyval \<Rightarrow> error + pyval" where
  "numbers_only v = Inl TypeError"

text \<open>The \<^verbatim>\<open>cube:dimensions\<close> of the specification's example for dimension names.\<close>

definition spec_example_item :: pyval where
  "spec_example_item =
     PDict [(''properties'', PDict [(''cube:dimensions'', PDict [
               (''x'', PDict [(''axis'', PStr ''x'')]),
               (''time'', PDict [(''type'', PStr ''temporal'')])])])]"

text \<open>
  The entries of the property filter of the specification's example: one node that
  compares the parameter with 100, under the key
  \<^verbatim>\<open>cube:dimensions.level.process_graph\<close>. Then the entries of a filter with a property
  that is no dimension and three nodes on the dimension \<^verbatim>\<open>level\<close>.
\<close>

definition spec_example_properties :: "(string \<times> pyval) list" where
  "spec_example_properties =
     [(''cube:dimensions.level.process_graph'',
       PDict [(''process_graph'',
               PDict [(''eq1'',
                       PDict [(''process_id'', PStr ''eq''),
                              (''arguments'',
                               PDict [(''x'', PParameterReference ''value''),
                                      (''y'', PInt 100)])])])])]"

definition example_properties :: "(string \<times> pyval) list" where
  "example_properties =
     [(''eo:cloud_cover'', PDict [(''process_graph'', PInt 0)]),
      (''cube:dimensions.level.process_graph'',
       PDict [(''process_graph'',
               PDict [(''lte1'',
                       PDict [(''process_id'', PStr ''lte''),
                              (''arguments'', PDict [(''x'', PInt 7), (''y'', PInt 8)])]),
                      (''eq1'',
                       PDict [(''process_id'', PStr ''=''),
                              (''arguments'', PDict [(''x'', PInt 100)])]),
                      (''eq2'',
                       PDict [(''process_id'', PStr ''eq''),
                              (''arguments'',
                               PDict [(''x'', PParameterReference ''value''),
                                      (''y'', PInt 200)])])])])]"

text \<open>A reader, as the constructor leaves it, and a small model of datasets.\<close>

definition example_reader :: reader where
  "example_reader =
     \<lparr>items = PList [PDict [(''assets'', PDict [(''data'', PDict [(''href'', PStr ''https://h/b/o.tif'')])])]],
      bbox = PTuple [PFloat 0, PFloat 0, PFloat 10, PFloat 10],
      bands = PList [PStr ''B02''],
      temporal_extent = PTuple [PDatetime 0, PNone],
      bucket = ''b'',
      stored_endpoint = PStr ''S3.Example.COM'',
      access_key_id = PStr ''AK'',
      secret_access_key = PStr ''SK'',
      region = PStr ''us-east'',
      properties = PNone\<rparr>"

text \<open>
  A dataset as its coordinates per dimension; selecting a value of a dimension keeps
  that value only, and fails when the dimension or the value is not there.
\<close>

definition example_sel ::
  "(string \<times> pyval list) list \<Rightarrow> string \<Rightarrow> pyval \<Rightarrow> error + (string \<times> pyval list) list" where
  "example_sel d name v =
     (case map_of d name of
        None \<Rightarrow> Inl KeyError
      | Some coords \<Rightarrow>
          if v \<in> set coords
          then Inr (map (\<lambda>(k, c). if k = name then (k, [v]) else (k, c)) d)
          else Inl KeyError)"

definition example_dataset :: "(string \<times> pyval list) list" where
  "example_dataset = [(''level'', [PInt 100, PInt 200]), (''x'', [PFloat 0, PFloat 10])]"

text \<open>
  The collaborators of the constructor for the examples: a URL parser that accepts
  every network location with both brackets, as the releases before 3.11.4 do;
  credentials that are known for the bucket \<^verbatim>\<open>b\<close> only, and every endpoint in one
  region. With them, the arguments from which the constructor builds \<open>example_reader\<close>.
\<close>

definition lenient_check :: "string \<Rightarrow> bool" where
  "lenient_check loc = True"

definition example_util :: object_storage_util where
  "example_util =
     \<lparr>get_credentials_by_bucket =
        (\<lambda>bkt. if bkt = ''b''
               then Inr (PDict [(''endpoint'', PStr ''S3.Example.COM''),
                                (''access_key_id'', PStr ''AK''),
                                (''secret_access_key'', PStr ''SK'')])
               else Inl KeyError),
      parse_region = (\<lambda>ep. Inr (PStr ''us-east''))\<rparr>"

definition example_items :: pyval where
  "example_items =
     PList [PDict [(''assets'', PDict [(''data'', PDict [(''href'', PStr ''https://h/b/o.tif'')])])]]"

definition example_bbox :: pyval where
  "example_bbox = PTuple [PFloat 0, PFloat 0, PFloat 10, PFloat 10]"

section \<open>Facts about the string operations\<close>

lemma str_find_none: "str_find s c start = - 1 \<longleftrightarrow> c \<notin> set (drop start s)"
  by (simp add: str_find_def)

lemma str_find_segment:
  assumes "s = x # b @ c # rest" and "c \<notin> set b"
  shows "str_find s c 1 = int (length b) + 1"
proof -
  have "takeWhile (\<lambda>y. y \<noteq> c) (b @ c # rest) = b"
    using assms(2) by (subst takeWhile_append2) auto
  then show ?thesis using assms(1) by (simp add: str_find_def)
qed

lemma segment_exists:
  assumes "c \<in> set (drop 1 s)"
  shows "\<exists>x b rest. s = x # b @ c # rest \<and> c \<notin> set b"
proof -
  from assms obtain x t where s: "s = x # t" and "c \<in> set t"
    by (cases s) auto
  then obtain b rest where "t = b @ c # rest" and "c \<notin> set b"
    by (meson split_list_first)
  with s show ?thesis by blast
qed

lemma lower_char_low: "(of_char c :: nat) \<le> 32 \<Longrightarrow> lower_char c = c"
  by (simp add: lower_char_def Let_def)

lemma http_first_char:
  assumes "startswith (lower url) ''http''"
  obtains c rest where "url = c # rest" and "lower_char c = CHR ''h''"
  using assms by (cases url) (auto simp: startswith_def lower_def)

lemma split_scheme_http:
  assumes "lower_char c = CHR ''h''"
  shows "lower (fst (split_scheme (c # rest))) \<noteq> ''s3''"
proof (cases "fst (split_scheme (c # rest)) = []")
  case True
  then show ?thesis by (simp add: lower_def)
next
  case False
  then obtain i where "i > 0" and "fst (split_scheme (c # rest)) = lower (take i (c # rest))"
    by (auto simp: split_scheme_def Let_def split: if_splits) (metis zero_less_nat_eq)
  then obtain t where "fst (split_scheme (c # rest)) = lower_char c # t"
    by (cases i) (auto simp: lower_def)
  with assms show ?thesis by (simp add: lower_def lower_char_def)
qed

lemma scheme_of_http:
  assumes "startswith (lower url) ''http''"
  shows "lower (scheme (url_components url)) \<noteq> ''s3''"
proof -
  from assms obtain c rest where url: "url = c # rest" and c: "lower_char c = CHR ''h''"
    by (rule http_first_char)
  have big: "\<not> (of_char c :: nat) \<le> 32"
  proof
    assume "(of_char c :: nat) \<le> 32"
    then have "c = CHR ''h''" using c lower_char_low by simp
    with \<open>(of_char c :: nat) \<le> 32\<close> show False by simp
  qed
  then have keep: "c \<notin> set [CHR 0x09, CHR 0x0D, CHR 0x0A]" by auto
  obtain rest' where "filter (\<lambda>c. c \<notin> set [CHR 0x09, CHR 0x0D, CHR 0x0A])
      (dropWhile (\<lambda>c. (of_char c :: nat) \<le> 32) url) = c # rest'"
    using url big keep by simp
  then have "scheme (url_components url) = fst (split_scheme (c # rest'))"
    by (simp add: url_components_def Let_def split: prod.splits)
  then show ?thesis using split_scheme_http [OF c] by simp
qed

section \<open>Properties of the URL helpers\<close>

lemma urlparse_components: "urlparse chk url = Inr p \<Longrightarrow> p = url_components url"
  by (auto simp: urlparse_def Let_def split: if_splits)

lemma urlparse_without_brackets:
  assumes "CHR ''['' \<notin> set (netloc (url_components url))"
    and "CHR '']'' \<notin> set (netloc (url_components url))"
  shows "urlparse chk url = Inr (url_components url)"
  using assms by (simp add: urlparse_def Let_def)

lemma extract_bucket_rejected:
  "urlparse chk url = Inl e \<Longrightarrow> extract_bucket_name_from_url chk url = Inl e"
  by (simp add: extract_bucket_name_from_url_def)

lemma get_object_rejected: "urlparse chk url = Inl e \<Longrightarrow> get_object chk url = Inl e"
  by (simp add: get_object_def)

lemma extract_bucket_hostname:
  assumes "urlparse chk url = Inr p" and "lower (scheme p) = ''s3''" and "hostname p = Some h"
  shows "extract_bucket_name_from_url chk url = Inr h"
  using assms by (simp add: extract_bucket_name_from_url_def)

lemma extract_bucket_otherwise:
  assumes "urlparse chk url = Inr p"
    and "lower (scheme p) \<noteq> ''s3'' \<or> hostname p = None"
  shows "extract_bucket_name_from_url chk url =
           (if str_find (path p) CHR ''/'' 1 > 1
            then Inr (slice (path p) 1 (nat (str_find (path p) CHR ''/'' 1)))
            else Inl AssertionError)"
  using assms by (auto simp: extract_bucket_name_from_url_def Let_def)

lemma extract_bucket_segment:
  assumes "urlparse chk url = Inr p"
    and "lower (scheme p) \<noteq> ''s3'' \<or> hostname p = None"
    and p: "path p = x # b @ CHR ''/'' # rest"
    and nb: "CHR ''/'' \<notin> set b" and "b \<noteq> []"
  shows "extract_bucket_name_from_url chk url = Inr b"
proof -
  have f: "str_find (path p) CHR ''/'' 1 = int (length b) + 1"
    by (rule str_find_segment [OF p nb])
  from assms(5) have "length b > 0" by simp
  with p f show ?thesis
    by (subst extract_bucket_otherwise [OF assms(1) assms(2)])
       (auto simp: slice_def nat_add_distrib)
qed

lemma extract_bucket_empty_segment:
  assumes "urlparse chk url = Inr p"
    and "lower (scheme p) \<noteq> ''s3'' \<or> hostname p = None"
    and p: "path p = x # CHR ''/'' # rest"
  shows "extract_bucket_name_from_url chk url = Inl AssertionError"
proof -
  have "str_find (path p) CHR ''/'' 1 = int (length ([]::string)) + 1"
    by (rule str_find_segment) (simp_all add: p)
  then show ?thesis
    by (subst extract_bucket_otherwise [OF assms(1) assms(2)]) auto
qed

lemma extract_bucket_no_separator:
  assumes "urlparse chk url = Inr p"
    and "lower (scheme p) \<noteq> ''s3'' \<or> hostname p = None"
    and "CHR ''/'' \<notin> set (drop 1 (path p))"
  shows "extract_bucket_name_from_url chk url = Inl AssertionError"
proof -
  from assms(3) have "str_find (path p) CHR ''/'' 1 = - 1"
    by (simp add: str_find_none)
  then show ?thesis
    by (subst extract_bucket_otherwise [OF assms(1) assms(2)]) auto
qed

lemma extract_bucket_returns_iff:
  assumes "urlparse chk url = Inr p"
    and "lower (scheme p) \<noteq> ''s3'' \<or> hostname p = None"
  shows "extract_bucket_name_from_url chk url = Inr b \<longleftrightarrow>
           (\<exists>x rest. path p = x # b @ CHR ''/'' # rest \<and> CHR ''/'' \<notin> set b \<and> b \<noteq> [])"
proof
  assume r: "extract_bucket_name_from_url chk url = Inr b"
  have "CHR ''/'' \<in> set (drop 1 (path p))"
  proof (rule ccontr)
    assume "CHR ''/'' \<notin> set (drop 1 (path p))"
    then have "extract_bucket_name_from_url chk url = Inl AssertionError"
      by (rule extract_bucket_no_separator [OF assms])
    with r show False by simp
  qed
  from segment_exists [OF this]
  obtain x c rest where p: "path p = x # c @ CHR ''/'' # rest" and nc: "CHR ''/'' \<notin> set c"
    by auto
  have "c \<noteq> []"
  proof
    assume "c = []"
    with p have "path p = x # CHR ''/'' # rest" by simp
    then have "extract_bucket_name_from_url chk url = Inl AssertionError"
      by (rule extract_bucket_empty_segment [OF assms])
    with r show False by simp
  qed
  with p nc have "extract_bucket_name_from_url chk url = Inr c"
    by (intro extract_bucket_segment [OF assms])
  with r have "c = b" by simp
  with p nc \<open>c \<noteq> []\<close>
  show "\<exists>x rest. path p = x # b @ CHR ''/'' # rest \<and> CHR ''/'' \<notin> set b \<and> b \<noteq> []"
    by auto
next
  assume "\<exists>x rest. path p = x # b @ CHR ''/'' # rest \<and> CHR ''/'' \<notin> set b \<and> b \<noteq> []"
  then obtain x rest where "path p = x # b @ CHR ''/'' # rest" and "CHR ''/'' \<notin> set b"
    and "b \<noteq> []"
    by auto
  then show "extract_bucket_name_from_url chk url = Inr b"
    by (intro extract_bucket_segment [OF assms])
qed

lemma extract_bucket_fails_iff:
  assumes "urlparse chk url = Inr p"
    and "lower (scheme p) \<noteq> ''s3'' \<or> hostname p = None"
  shows "extract_bucket_name_from_url chk url = Inl AssertionError \<longleftrightarrow>
           CHR ''/'' \<notin> set (drop 1 (path p)) \<or> (\<exists>x rest. path p = x # CHR ''/'' # rest)"
proof
  assume f: "extract_bucket_name_from_url chk url = Inl AssertionError"
  show "CHR ''/'' \<notin> set (drop 1 (path p)) \<or> (\<exists>x rest. path p = x # CHR ''/'' # rest)"
  proof (rule disjCI)
    assume "\<not> (\<exists>x rest. path p = x # CHR ''/'' # rest)"
    then have ne: "\<And>x rest. path p \<noteq> x # CHR ''/'' # rest" by simp
    show "CHR ''/'' \<notin> set (drop 1 (path p))"
    proof
      assume "CHR ''/'' \<in> set (drop 1 (path p))"
      from segment_exists [OF this]
      obtain x c rest where p: "path p = x # c @ CHR ''/'' # rest" and nc: "CHR ''/'' \<notin> set c"
        by auto
      with ne have "c \<noteq> []" by auto
      with p nc have "extract_bucket_name_from_url chk url = Inr c"
        by (intro extract_bucket_segment [OF assms])
      with f show False by simp
    qed
  qed
next
  assume "CHR ''/'' \<notin> set (drop 1 (path p)) \<or> (\<exists>x rest. path p = x # CHR ''/'' # rest)"
  then show "extract_bucket_name_from_url chk url = Inl AssertionError"
  proof
    assume "CHR ''/'' \<notin> set (drop 1 (path p))"
    then show ?thesis by (rule extract_bucket_no_separator [OF assms])
  next
    assume "\<exists>x rest. path p = x # CHR ''/'' # rest"
    then obtain x rest where "path p = x # CHR ''/'' # rest" by auto
    then show ?thesis by (rule extract_bucket_empty_segment [OF assms])
  qed
qed

lemma get_object_segment:
  assumes "urlparse chk url = Inr p"
    and p: "path p = x # b @ CHR ''/'' # obj" and nb: "CHR ''/'' \<notin> set b"
  shows "get_object chk url = Inr obj"
proof -
  have "str_find (path p) CHR ''/'' 1 = int (length b) + 1"
    by (rule str_find_segment [OF p nb])
  then show ?thesis
    by (simp add: get_object_def assms(1) Let_def slice_from_def p nat_add_distrib)
qed

lemma get_object_no_separator:
  assumes "urlparse chk url = Inr p" and "CHR ''/'' \<notin> set (drop 1 (path p))"
  shows "get_object chk url = Inl AssertionError"
proof -
  from assms(2) have "str_find (path p) CHR ''/'' 1 = - 1"
    by (simp add: str_find_none)
  then show ?thesis by (simp add: get_object_def assms(1) Let_def)
qed

lemma get_object_fails_iff:
  assumes "urlparse chk url = Inr p"
  shows "get_object chk url = Inl AssertionError \<longleftrightarrow> CHR ''/'' \<notin> set (drop 1 (path p))"
proof
  assume f: "get_object chk url = Inl AssertionError"
  show "CHR ''/'' \<notin> set (drop 1 (path p))"
  proof
    assume "CHR ''/'' \<in> set (drop 1 (path p))"
    from segment_exists [OF this]
    obtain x b rest where "path p = x # b @ CHR ''/'' # rest" and "CHR ''/'' \<notin> set b"
      by auto
    then have "get_object chk url = Inr rest" by (rule get_object_segment [OF assms])
    with f show False by simp
  qed
qed (rule get_object_no_separator [OF assms])

lemma get_object_returns_iff:
  assumes "urlparse chk url = Inr p"
  shows "get_object chk url = Inr obj \<longleftrightarrow>
     (\<exists>x b. path p = x # b @ CHR ''/'' # obj \<and> CHR ''/'' \<notin> set b)"
proof
  assume r: "get_object chk url = Inr obj"
  have "CHR ''/'' \<in> set (drop 1 (path p))"
  proof (rule ccontr)
    assume "CHR ''/'' \<notin> set (drop 1 (path p))"
    then have "get_object chk url = Inl AssertionError"
      by (rule get_object_no_separator [OF assms])
    with r show False by simp
  qed
  from segment_exists [OF this]
  obtain x b rest where p: "path p = x # b @ CHR ''/'' # rest"
      and nb: "CHR ''/'' \<notin> set b"
    by auto
  then have "get_object chk url = Inr rest" by (rule get_object_segment [OF assms])
  with r have "rest = obj" by simp
  with p nb show "\<exists>x b. path p = x # b @ CHR ''/'' # obj \<and> CHR ''/'' \<notin> set b"
    by auto
next
  assume "\<exists>x b. path p = x # b @ CHR ''/'' # obj \<and> CHR ''/'' \<notin> set b"
  then obtain x b where "path p = x # b @ CHR ''/'' # obj" and "CHR ''/'' \<notin> set b"
    by auto
  then show "get_object chk url = Inr obj" by (rule get_object_segment [OF assms])
qed

text \<open>
  The components of the URLs of the specification and of the examples; their network
  locations have no bracket, so every release of the parser accepts them.
\<close>

lemma spec_url_s3:
  "urlparse chk ''s3://bucket1/path/to/obj''
     = Inr \<lparr>scheme = ''s3'', netloc = ''bucket1'', path = ''/path/to/obj'', params = '''',
            query = '''', fragment = ''''\<rparr>"
proof -
  have c: "url_components ''s3://bucket1/path/to/obj''
     = \<lparr>scheme = ''s3'', netloc = ''bucket1'', path = ''/path/to/obj'', params = '''',
        query = '''', fragment = ''''\<rparr>"
    by code_simp
  show ?thesis by (subst urlparse_without_brackets) (simp_all add: c)
qed

lemma spec_url_https:
  "urlparse chk ''https://host/bucket2/obj''
     = Inr \<lparr>scheme = ''https'', netloc = ''host'', path = ''/bucket2/obj'', params = '''',
            query = '''', fragment = ''''\<rparr>"
proof -
  have c: "url_components ''https://host/bucket2/obj''
     = \<lparr>scheme = ''https'', netloc = ''host'', path = ''/bucket2/obj'', params = '''',
        query = '''', fragment = ''''\<rparr>"
    by code_simp
  show ?thesis by (subst urlparse_without_brackets) (simp_all add: c)
qed

lemma spec_url_convert:
  "urlparse chk ''https://host/bucket2/path/obj.tif''
     = Inr \<lparr>scheme = ''https'', netloc = ''host'', path = ''/bucket2/path/obj.tif'',
            params = '''', query = '''', fragment = ''''\<rparr>"
proof -
  have c: "url_components ''https://host/bucket2/path/obj.tif''
     = \<lparr>scheme = ''https'', netloc = ''host'', path = ''/bucket2/path/obj.tif'',
        params = '''', query = '''', fragment = ''''\<rparr>"
    by code_simp
  show ?thesis by (subst urlparse_without_brackets) (simp_all add: c)
qed

lemma hostname_bucket1:
  "hostname \<lparr>scheme = ''s3'', netloc = ''bucket1'', path = ''/path/to/obj'', params = '''',
             query = '''', fragment = ''''\<rparr> = Some ''bucket1''"
  by code_simp

text \<open>
  Claim C4, as the code has it. For a URL that the parser accepts: when it has the
  scheme \<^verbatim>\<open>s3\<close> and a hostname, the bucket is that hostname. Otherwise (another scheme, or
  no hostname) the bucket is the text between the first character of the path, the
  leading slash of an absolute path, and the next slash: it is returned exactly when it
  is not empty, and the call fails with an assertion error exactly when no slash follows
  the first character of the path or the text is empty. For a URL that the parser
  rejects, the call fails with the error of the parser. The two URLs of the
  specification give \<^verbatim>\<open>bucket1\<close> and \<^verbatim>\<open>bucket2\<close>.
\<close>

theorem extract_bucket_name_from_url_cases:
  "(urlparse chk url = Inr p \<and> lower (scheme p) = ''s3'' \<and> hostname p = Some h
      \<longrightarrow> extract_bucket_name_from_url chk url = Inr h)
   \<and> (urlparse chk url = Inr p \<and> (lower (scheme p) \<noteq> ''s3'' \<or> hostname p = None)
      \<longrightarrow> (extract_bucket_name_from_url chk url = Inr b
             \<longleftrightarrow> (\<exists>x rest. path p = x # b @ CHR ''/'' # rest \<and> CHR ''/'' \<notin> set b \<and> b \<noteq> []))
          \<and> (extract_bucket_name_from_url chk url = Inl AssertionError
             \<longleftrightarrow> CHR ''/'' \<notin> set (drop 1 (path p))
                 \<or> (\<exists>x rest. path p = x # CHR ''/'' # rest)))
   \<and> (urlparse chk url = Inl e \<longrightarrow> extract_bucket_name_from_url chk url = Inl e)
   \<and> extract_bucket_name_from_url chk ''s3://bucket1/path/to/obj'' = Inr ''bucket1''
   \<and> extract_bucket_name_from_url chk ''https://host/bucket2/obj'' = Inr ''bucket2''"
proof (intro conjI impI)
  assume "urlparse chk url = Inr p \<and> lower (scheme p) = ''s3'' \<and> hostname p = Some h"
  then show "extract_bucket_name_from_url chk url = Inr h"
    by (intro extract_bucket_hostname [where p = p]) simp_all
next
  assume a: "urlparse chk url = Inr p \<and> (lower (scheme p) \<noteq> ''s3'' \<or> hostname p = None)"
  then have u: "urlparse chk url = Inr p"
    and o: "lower (scheme p) \<noteq> ''s3'' \<or> hostname p = None"
    by simp_all
  show "extract_bucket_name_from_url chk url = Inr b
          \<longleftrightarrow> (\<exists>x rest. path p = x # b @ CHR ''/'' # rest \<and> CHR ''/'' \<notin> set b \<and> b \<noteq> [])"
    by (rule extract_bucket_returns_iff [OF u o])
  show "extract_bucket_name_from_url chk url = Inl AssertionError
          \<longleftrightarrow> CHR ''/'' \<notin> set (drop 1 (path p)) \<or> (\<exists>x rest. path p = x # CHR ''/'' # rest)"
    by (rule extract_bucket_fails_iff [OF u o])
next
  assume "urlparse chk url = Inl e"
  then show "extract_bucket_name_from_url chk url = Inl e" by (rule extract_bucket_rejected)
next
  show "extract_bucket_name_from_url chk ''s3://bucket1/path/to/obj'' = Inr ''bucket1''"
    by (rule extract_bucket_hostname [OF spec_url_s3]) (simp_all add: hostname_bucket1 lower_def lower_char_def)
next
  have "extract_bucket_name_from_url chk ''https://host/bucket2/obj'' = Inr ''bucket2''
          \<longleftrightarrow> (\<exists>x rest. ''/bucket2/obj'' = x # ''bucket2'' @ CHR ''/'' # rest
                \<and> CHR ''/'' \<notin> set ''bucket2'' \<and> ''bucket2'' \<noteq> [])"
    using extract_bucket_returns_iff [OF spec_url_https, where b = "''bucket2''"]
    by (simp add: lower_def lower_char_def)
  then show "extract_bucket_name_from_url chk ''https://host/bucket2/obj'' = Inr ''bucket2''"
    by simp
qed

theorem extract_bucket_name_from_url_witness:
  "extract_bucket_name_from_url lenient_check ''S3://Data-Lake:443/a.tif'' = Inr ''data-lake''
   \<and> extract_bucket_name_from_url lenient_check ''https://cos.test/sentinel/2020/t.tif''
       = Inr ''sentinel''
   \<and> extract_bucket_name_from_url lenient_check ''https://cos.test/sentinel''
       = Inl AssertionError
   \<and> extract_bucket_name_from_url lenient_check ''https://[cos/sentinel/t.tif'' = Inl ValueError"
proof (intro conjI)
  have a: "urlparse lenient_check ''S3://Data-Lake:443/a.tif''
             = Inr \<lparr>scheme = ''s3'', netloc = ''Data-Lake:443'', path = ''/a.tif'', params = '''',
                    query = '''', fragment = ''''\<rparr>
           \<and> lower (scheme \<lparr>scheme = ''s3'', netloc = ''Data-Lake:443'', path = ''/a.tif'',
                             params = '''', query = '''', fragment = ''''\<rparr>) = ''s3''
           \<and> hostname \<lparr>scheme = ''s3'', netloc = ''Data-Lake:443'', path = ''/a.tif'',
                        params = '''', query = '''', fragment = ''''\<rparr> = Some ''data-lake''"
    by code_simp
  from extract_bucket_name_from_url_cases [THEN conjunct1, THEN mp, OF a]
  show "extract_bucket_name_from_url lenient_check ''S3://Data-Lake:443/a.tif''
          = Inr ''data-lake''" .
next
  let ?p = "\<lparr>scheme = ''https'', netloc = ''cos.test'', path = ''/sentinel/2020/t.tif'',
             params = '''', query = '''', fragment = ''''\<rparr>"
  have b: "urlparse lenient_check ''https://cos.test/sentinel/2020/t.tif'' = Inr ?p
           \<and> (lower (scheme ?p) \<noteq> ''s3'' \<or> hostname ?p = None)"
    by code_simp
  have s: "\<exists>x rest. path ?p = x # ''sentinel'' @ CHR ''/'' # rest
             \<and> CHR ''/'' \<notin> set ''sentinel'' \<and> ''sentinel'' \<noteq> []"
    by simp
  from extract_bucket_name_from_url_cases
    [THEN conjunct2, THEN conjunct1, THEN mp, OF b, THEN conjunct1, THEN iffD2, OF s]
  show "extract_bucket_name_from_url lenient_check ''https://cos.test/sentinel/2020/t.tif''
          = Inr ''sentinel''" .
next
  let ?p = "\<lparr>scheme = ''https'', netloc = ''cos.test'', path = ''/sentinel'',
             params = '''', query = '''', fragment = ''''\<rparr>"
  have c: "urlparse lenient_check ''https://cos.test/sentinel'' = Inr ?p
           \<and> (lower (scheme ?p) \<noteq> ''s3'' \<or> hostname ?p = None)"
    by code_simp
  have n: "CHR ''/'' \<notin> set (drop 1 (path ?p)) \<or> (\<exists>x rest. path ?p = x # CHR ''/'' # rest)"
    by simp
  from extract_bucket_name_from_url_cases
    [THEN conjunct2, THEN conjunct1, THEN mp, OF c, THEN conjunct2, THEN iffD2, OF n]
  show "extract_bucket_name_from_url lenient_check ''https://cos.test/sentinel''
          = Inl AssertionError" .
next
  have r: "urlparse lenient_check ''https://[cos/sentinel/t.tif'' = Inl ValueError"
    by code_simp
  from extract_bucket_name_from_url_cases
    [THEN conjunct2, THEN conjunct2, THEN conjunct1, THEN mp, OF r]
  show "extract_bucket_name_from_url lenient_check ''https://[cos/sentinel/t.tif''
          = Inl ValueError" .
qed

text \<open>
  The claim as stated is false at two URLs: an \<^verbatim>\<open>s3\<close> URL without a hostname, for which
  the first path segment is returned, and a URL whose first path segment is empty, for
  which the call fails although a separator follows the segment.
\<close>

theorem extract_bucket_name_from_url_counterexample:
  "extract_bucket_name_from_url lenient_check ''s3:///bucket1/obj'' = Inr ''bucket1''
   \<and> hostname (url_components ''s3:///bucket1/obj'') = None
   \<and> extract_bucket_name_from_url lenient_check ''https://host//obj'' = Inl AssertionError
   \<and> path (url_components ''https://host//obj'') = ''//obj''"
  by code_simp

text \<open>
  Claim C8, as the code has it. \<^verbatim>\<open>get_object\<close> fails exactly when the parser rejects
  the URL, with the error of the parser, or no slash follows the first character of the
  URL path, with an assertion error; and it returns \<open>obj\<close> exactly when the parser
  accepts the URL and the path is one character, a segment without a slash, a slash and
  \<open>obj\<close>. Where \<^verbatim>\<open>get_object\<close> fails, \<^verbatim>\<open>extract_bucket_name_from_url\<close> fails too, unless it
  takes the bucket from the hostname of an \<^verbatim>\<open>s3\<close> URL. The failure conditions are not
  the same: on a path whose first segment is empty the bucket extraction fails and
  \<^verbatim>\<open>get_object\<close> returns the remainder.
\<close>

theorem get_object_cases:
  "(isl (get_object chk url)
      \<longleftrightarrow> isl (urlparse chk url)
          \<or> (\<exists>p. urlparse chk url = Inr p \<and> CHR ''/'' \<notin> set (drop 1 (path p))))
   \<and> (urlparse chk url = Inl e \<longrightarrow>
         get_object chk url = Inl e \<and> extract_bucket_name_from_url chk url = Inl e)
   \<and> (urlparse chk url = Inr p \<longrightarrow>
         (get_object chk url = Inl AssertionError \<longleftrightarrow> CHR ''/'' \<notin> set (drop 1 (path p)))
       \<and> (get_object chk url = Inr obj
            \<longleftrightarrow> (\<exists>x b. path p = x # b @ CHR ''/'' # obj \<and> CHR ''/'' \<notin> set b)))
   \<and> (urlparse chk url = Inr p \<and> get_object chk url = Inl AssertionError
        \<and> (lower (scheme p) \<noteq> ''s3'' \<or> hostname p = None)
      \<longrightarrow> extract_bucket_name_from_url chk url = Inl AssertionError)
   \<and> (urlparse chk url = Inr p \<and> (lower (scheme p) \<noteq> ''s3'' \<or> hostname p = None)
        \<and> path p = x # CHR ''/'' # obj
      \<longrightarrow> extract_bucket_name_from_url chk url = Inl AssertionError
          \<and> get_object chk url = Inr obj)"
proof (intro conjI impI)
  show "isl (get_object chk url)
      \<longleftrightarrow> isl (urlparse chk url)
          \<or> (\<exists>p. urlparse chk url = Inr p \<and> CHR ''/'' \<notin> set (drop 1 (path p)))"
  proof (cases "urlparse chk url")
    case (Inl e)
    then show ?thesis by (simp add: get_object_rejected)
  next
    case (Inr q)
    have "isl (get_object chk url) \<longleftrightarrow> CHR ''/'' \<notin> set (drop 1 (path q))"
    proof
      assume f: "isl (get_object chk url)"
      show "CHR ''/'' \<notin> set (drop 1 (path q))"
      proof
        assume "CHR ''/'' \<in> set (drop 1 (path q))"
        from segment_exists [OF this]
        obtain x b rest where "path q = x # b @ CHR ''/'' # rest" and "CHR ''/'' \<notin> set b"
          by auto
        then have "get_object chk url = Inr rest" by (rule get_object_segment [OF Inr])
        with f show False by simp
      qed
    next
      assume "CHR ''/'' \<notin> set (drop 1 (path q))"
      then have "get_object chk url = Inl AssertionError"
        by (rule get_object_no_separator [OF Inr])
      then show "isl (get_object chk url)" by simp
    qed
    with Inr show ?thesis by simp
  qed
next
  assume "urlparse chk url = Inl e"
  then show "get_object chk url = Inl e" by (rule get_object_rejected)
next
  assume "urlparse chk url = Inl e"
  then show "extract_bucket_name_from_url chk url = Inl e" by (rule extract_bucket_rejected)
next
  assume u: "urlparse chk url = Inr p"
  show "get_object chk url = Inl AssertionError \<longleftrightarrow> CHR ''/'' \<notin> set (drop 1 (path p))"
    by (rule get_object_fails_iff [OF u])
  show "get_object chk url = Inr obj
      \<longleftrightarrow> (\<exists>x b. path p = x # b @ CHR ''/'' # obj \<and> CHR ''/'' \<notin> set b)"
    by (rule get_object_returns_iff [OF u])
next
  assume a: "urlparse chk url = Inr p \<and> get_object chk url = Inl AssertionError
        \<and> (lower (scheme p) \<noteq> ''s3'' \<or> hostname p = None)"
  then have u: "urlparse chk url = Inr p"
    and o: "lower (scheme p) \<noteq> ''s3'' \<or> hostname p = None"
    by simp_all
  from a have "CHR ''/'' \<notin> set (drop 1 (path p))"
    by (simp add: get_object_fails_iff [OF u])
  then show "extract_bucket_name_from_url chk url = Inl AssertionError"
    by (rule extract_bucket_no_separator [OF u o])
next
  assume a: "urlparse chk url = Inr p \<and> (lower (scheme p) \<noteq> ''s3'' \<or> hostname p = None)
        \<and> path p = x # CHR ''/'' # obj"
  then have u: "urlparse chk url = Inr p"
    and o: "lower (scheme p) \<noteq> ''s3'' \<or> hostname p = None"
    and p: "path p = x # CHR ''/'' # obj"
    by simp_all
  show "extract_bucket_name_from_url chk url = Inl AssertionError"
    by (rule extract_bucket_empty_segment [OF u o p])
  from p have "path p = x # [] @ CHR ''/'' # obj" by simp
  then show "get_object chk url = Inr obj" by (rule get_object_segment [OF u]) simp
qed

theorem get_object_witness:
  "get_object lenient_check ''https://h/b'' = Inl AssertionError
   \<and> extract_bucket_name_from_url lenient_check ''https://h/b'' = Inl AssertionError
   \<and> get_object lenient_check ''https://h/b/k/o.tif'' = Inr ''k/o.tif''
   \<and> extract_bucket_name_from_url lenient_check ''https://h//o.tif'' = Inl AssertionError
   \<and> get_object lenient_check ''https://h//o.tif'' = Inr ''o.tif''
   \<and> get_object lenient_check ''https://[h/b/o.tif'' = Inl ValueError
   \<and> extract_bucket_name_from_url lenient_check ''https://[h/b/o.tif'' = Inl ValueError
   \<and> isl (get_object lenient_check ''https://h]/b/o.tif'')"
proof -
  let ?p1 = "\<lparr>scheme = ''https'', netloc = ''h'', path = ''/b'', params = '''', query = '''',
              fragment = ''''\<rparr>"
  let ?p2 = "\<lparr>scheme = ''https'', netloc = ''h'', path = ''/b/k/o.tif'', params = '''',
              query = '''', fragment = ''''\<rparr>"
  let ?p3 = "\<lparr>scheme = ''https'', netloc = ''h'', path = ''//o.tif'', params = '''',
              query = '''', fragment = ''''\<rparr>"
  have u1: "urlparse lenient_check ''https://h/b'' = Inr ?p1" by code_simp
  have u2: "urlparse lenient_check ''https://h/b/k/o.tif'' = Inr ?p2" by code_simp
  have u3: "urlparse lenient_check ''https://h//o.tif'' = Inr ?p3" by code_simp
  have u4: "urlparse lenient_check ''https://[h/b/o.tif'' = Inl ValueError" by code_simp
  have u5: "isl (urlparse lenient_check ''https://h]/b/o.tif'')
              \<or> (\<exists>p. urlparse lenient_check ''https://h]/b/o.tif'' = Inr p
                    \<and> CHR ''/'' \<notin> set (drop 1 (path p)))"
  proof (rule disjI1)
    show "isl (urlparse lenient_check ''https://h]/b/o.tif'')" by code_simp
  qed
  have n1: "CHR ''/'' \<notin> set (drop 1 (path ?p1))" by simp
  have o1: "lower (scheme ?p1) \<noteq> ''s3'' \<or> hostname ?p1 = None" by code_simp
  have o3: "lower (scheme ?p3) \<noteq> ''s3'' \<or> hostname ?p3 = None" by code_simp
  have s2: "\<exists>x b. path ?p2 = x # b @ CHR ''/'' # ''k/o.tif'' \<and> CHR ''/'' \<notin> set b"
  proof (intro exI conjI)
    show "path ?p2 = CHR ''/'' # ''b'' @ CHR ''/'' # ''k/o.tif''" by simp
    show "CHR ''/'' \<notin> set ''b''" by simp
  qed
  have s3: "path ?p3 = CHR ''/'' # CHR ''/'' # ''o.tif''" by simp
  note c3 = get_object_cases [THEN conjunct2, THEN conjunct2, THEN conjunct1]
  note t1 = c3 [THEN mp, OF u1, THEN conjunct1, THEN iffD2, OF n1]
  note t2 = get_object_cases
    [THEN conjunct2, THEN conjunct2, THEN conjunct2, THEN conjunct1, THEN mp,
     OF conjI [OF u1 conjI [OF t1 o1]]]
  note t3 = c3 [THEN mp, OF u2, THEN conjunct2, THEN iffD2, OF s2]
  note t4 = get_object_cases
    [THEN conjunct2, THEN conjunct2, THEN conjunct2, THEN conjunct2, THEN mp,
     OF conjI [OF u3 conjI [OF o3 s3]]]
  note t5 = get_object_cases [THEN conjunct2, THEN conjunct1, THEN mp, OF u4]
  note t6 = get_object_cases [THEN conjunct1, THEN iffD2, OF u5]
  from t1 t2 t3 t4 t5 t6 show ?thesis by (intro conjI) simp_all
qed

text \<open>
  The claim as stated, with one failure condition for both functions, is false: a URL on
  which only \<^verbatim>\<open>extract_bucket_name_from_url\<close> fails.
\<close>

theorem get_object_counterexample:
  "get_object lenient_check ''https://host//obj'' = Inr ''obj''
   \<and> extract_bucket_name_from_url lenient_check ''https://host//obj'' = Inl AssertionError"
  by code_simp

text \<open>
  Claim C7. For a URL that starts with \<^verbatim>\<open>http\<close> in any letter case (what the function
  asserts), that the parser accepts, and whose path is \<^verbatim>\<open>/<bucket>/<object>\<close>, with a
  non-empty bucket segment, the result is \<^verbatim>\<open>s3://<bucket>/<object>\<close>; the URL of the
  specification is an instance, in every release of the parser.
\<close>

theorem convert_https_to_s3_path_style:
  "(startswith (lower url) ''http''
      \<and> urlparse chk url = Inr p
      \<and> path p = CHR ''/'' # bkt @ CHR ''/'' # obj
      \<and> CHR ''/'' \<notin> set bkt \<and> bkt \<noteq> []
    \<longrightarrow> convert_https_to_s3 chk url = Inr (''s3://'' @ bkt @ ''/'' @ obj))
   \<and> convert_https_to_s3 chk ''https://host/bucket2/path/obj.tif''
       = Inr ''s3://bucket2/path/obj.tif''"
proof -
  have general: "convert_https_to_s3 chk' url' = Inr (''s3://'' @ bkt' @ ''/'' @ obj')"
    if a: "startswith (lower url') ''http''" and u: "urlparse chk' url' = Inr p'"
      and p: "path p' = CHR ''/'' # bkt' @ CHR ''/'' # obj'"
      and nb: "CHR ''/'' \<notin> set bkt'" and ne: "bkt' \<noteq> []"
    for chk' url' p' bkt' obj'
  proof -
    from u have "p' = url_components url'" by (rule urlparse_components)
    with a have o: "lower (scheme p') \<noteq> ''s3'' \<or> hostname p' = None"
      by (simp add: scheme_of_http)
    have "extract_bucket_name_from_url chk' url' = Inr bkt'"
      by (rule extract_bucket_segment [OF u o p nb ne])
    moreover have "get_object chk' url' = Inr obj'"
      by (rule get_object_segment [OF u p nb])
    ultimately show ?thesis using a by (simp add: convert_https_to_s3_def)
  qed
  show ?thesis
  proof (intro conjI impI)
    assume "startswith (lower url) ''http''
      \<and> urlparse chk url = Inr p
      \<and> path p = CHR ''/'' # bkt @ CHR ''/'' # obj
      \<and> CHR ''/'' \<notin> set bkt \<and> bkt \<noteq> []"
    then show "convert_https_to_s3 chk url = Inr (''s3://'' @ bkt @ ''/'' @ obj)"
      by (intro general [where p' = p]) simp_all
  next
    have "convert_https_to_s3 chk ''https://host/bucket2/path/obj.tif''
            = Inr (''s3://'' @ ''bucket2'' @ ''/'' @ ''path/obj.tif'')"
    proof (rule general [OF _ spec_url_convert])
      show "startswith (lower ''https://host/bucket2/path/obj.tif'') ''http''" by code_simp
    qed simp_all
    then show "convert_https_to_s3 chk ''https://host/bucket2/path/obj.tif''
            = Inr ''s3://bucket2/path/obj.tif''"
      by simp
  qed
qed

theorem convert_https_to_s3_witness:
  "convert_https_to_s3 lenient_check ''HTTP://h:80/b-1/k/o.nc'' = Inr ''s3://b-1/k/o.nc''"
proof -
  have "startswith (lower ''HTTP://h:80/b-1/k/o.nc'') ''http''
      \<and> urlparse lenient_check ''HTTP://h:80/b-1/k/o.nc''
          = Inr \<lparr>scheme = ''http'', netloc = ''h:80'', path = ''/b-1/k/o.nc'', params = '''',
                 query = '''', fragment = ''''\<rparr>
      \<and> path \<lparr>scheme = ''http'', netloc = ''h:80'', path = ''/b-1/k/o.nc'', params = '''',
               query = '''', fragment = ''''\<rparr> = CHR ''/'' # ''b-1'' @ CHR ''/'' # ''k/o.nc''
      \<and> CHR ''/'' \<notin> set ''b-1'' \<and> ''b-1'' \<noteq> []"
    by code_simp
  from convert_https_to_s3_path_style [THEN conjunct1, THEN mp, OF this]
  show ?thesis by simp
qed

section \<open>Properties of the dimension helpers\<close>

lemma dict_get_PDict: "dict_get (PDict fs) k = Inr (entry_field fs k)"
  by (simp add: dict_get_def entry_field_def split: option.splits)


















text \<open>
  At the integer \<open>- 2 ^ 63\<close> the 64-bit absolute value wraps, and the result is negative.
\<close>

lemma get_resolution_least_step:
  "get_resolution numbers_only least_step_item = Inr (PFloat (- 9223372036854775808))"
  by (simp add: get_resolution_def least_step_item_def cube_dimensions_def getitem_def
      dict_values_def dict_get_def float_abs_def)

lemma loop_found:
  "get_dimension_name_loop dim_list axis dim_type i True dimension_name = Inr dimension_name"
  by (subst get_dimension_name_loop.simps) simp

lemma loop_end:
  "length dim_list \<le> i \<Longrightarrow>
     get_dimension_name_loop dim_list axis dim_type i found dimension_name = Inr dimension_name"
  by (subst get_dimension_name_loop.simps) simp

lemma dimension_step_mapping:
  "dimension_step k (PDict fs) axis dim_type (False, nm)
     = Inr (if entry_matches axis dim_type fs then (True, Some k) else (False, nm))"
  by (cases axis; cases dim_type)
     (auto simp: dimension_step_def dict_get_PDict entry_matches_def Let_def)

lemma loop_step:
  assumes "i < length dim_list" and "dim_list ! i = (k, PDict fs)"
  shows "get_dimension_name_loop dim_list axis dim_type i False dimension_name
           = (if entry_matches axis dim_type fs then Inr (Some k)
              else get_dimension_name_loop dim_list axis dim_type (i + 1) False dimension_name)"
  by (subst get_dimension_name_loop.simps)
     (simp add: assms dimension_step_mapping loop_found)

lemma loop_skip:
  assumes "\<forall>(k', fs') \<in> set pre. \<not> entry_matches axis dim_type fs'"
  shows "get_dimension_name_loop (seen @ mappings pre @ rest) axis dim_type (length seen) False nm
           = get_dimension_name_loop (seen @ mappings pre @ rest) axis dim_type
               (length seen + length pre) False nm"
  using assms
proof (induction pre arbitrary: seen)
  case Nil
  then show ?case by (simp add: mappings_def)
next
  case (Cons p pre)
  obtain k fs where p: "p = (k, fs)" by (cases p)
  let ?dl = "seen @ mappings (p # pre) @ rest"
  have dl: "?dl = (seen @ [(k, PDict fs)]) @ mappings pre @ rest"
    by (simp add: mappings_def p)
  have at: "?dl ! length seen = (k, PDict fs)" by (simp add: mappings_def p)
  have lt: "length seen < length ?dl" by (simp add: mappings_def)
  from Cons.prems p have nm: "\<not> entry_matches axis dim_type fs" by simp
  from Cons.prems have rest: "\<forall>(k', fs') \<in> set pre. \<not> entry_matches axis dim_type fs'" by simp
  have "get_dimension_name_loop ?dl axis dim_type (length seen) False nm
          = get_dimension_name_loop ?dl axis dim_type (length seen + 1) False nm"
    using loop_step [OF lt at] nm by simp
  also have "\<dots> = get_dimension_name_loop ((seen @ [(k, PDict fs)]) @ mappings pre @ rest)
                     axis dim_type (length (seen @ [(k, PDict fs)])) False nm"
    by (simp only: dl) simp
  also have "\<dots> = get_dimension_name_loop ((seen @ [(k, PDict fs)]) @ mappings pre @ rest)
                     axis dim_type (length (seen @ [(k, PDict fs)]) + length pre) False nm"
    by (rule Cons.IH [OF rest])
  also have "\<dots> = get_dimension_name_loop ?dl axis dim_type (length seen + length (p # pre)) False nm"
    by (simp only: dl) simp
  finally show ?case .
qed

lemma loop_first_match:
  assumes "\<forall>(k', fs') \<in> set pre. \<not> entry_matches axis dim_type fs'"
    and "entry_matches axis dim_type fs"
  shows "get_dimension_name_loop (mappings pre @ (k, PDict fs) # post) axis dim_type 0 False None
           = Inr (Some k)"
proof -
  let ?dl = "mappings pre @ (k, PDict fs) # post"
  have "get_dimension_name_loop ?dl axis dim_type 0 False None
          = get_dimension_name_loop ?dl axis dim_type (length pre) False None"
    using loop_skip [OF assms(1), of "[]" "(k, PDict fs) # post" None] by simp
  also have "\<dots> = Inr (Some k)"
  proof -
    have lt: "length pre < length ?dl" by (simp add: mappings_def)
    have at: "?dl ! length pre = (k, PDict fs)"
      by (simp add: mappings_def nth_append)
    show ?thesis using loop_step [OF lt at] assms(2) by simp
  qed
  finally show ?thesis .
qed

lemma loop_no_match:
  assumes "\<forall>(k', fs') \<in> set ds. \<not> entry_matches axis dim_type fs'"
  shows "get_dimension_name_loop (mappings ds) axis dim_type 0 False None = Inr None"
proof -
  have "get_dimension_name_loop (mappings ds) axis dim_type 0 False None
          = get_dimension_name_loop (mappings ds) axis dim_type (length ds) False None"
    using loop_skip [OF assms, of "[]" "[]" None] by simp
  also have "\<dots> = Inr None" by (rule loop_end) (simp add: mappings_def)
  finally show ?thesis .
qed


lemma get_dimension_name_loop_eq:
  assumes "cube_dimensions item = Inr (PDict kvs)" and "axis \<noteq> None \<or> dim_type \<noteq> None"
  shows "get_dimension_name item axis dim_type
           = get_dimension_name_loop kvs axis dim_type 0 False None"
  using assms by (auto simp add: get_dimension_name_def isinstance_dict_def dict_items_def)

text \<open>
  Claim C5. Let the \<^verbatim>\<open>cube:dimensions\<close> of an item be a mapping. When its entries up to
  some entry are mappings, none of the earlier ones matches the request and that entry
  matches it, \<^verbatim>\<open>get_dimension_name\<close> returns the key of that entry, whatever follows it:
  the scan stops at the first match. When all entries are mappings, a criterion is given
  and no entry matches, the result is \<^verbatim>\<open>None\<close>. When neither an axis nor a dimension
  type is given, the call fails with an assertion error. On the example of the
  specification the axis \<^verbatim>\<open>x\<close> gives \<^verbatim>\<open>x\<close> and the type \<^verbatim>\<open>temporal\<close> gives \<^verbatim>\<open>time\<close>.
\<close>

theorem get_dimension_name_first_match:
  "(cube_dimensions item = Inr (PDict (mappings pre @ (k, PDict fs) # post))
      \<and> (\<forall>(k', fs') \<in> set pre. \<not> entry_matches axis dim_type fs')
      \<and> entry_matches axis dim_type fs
    \<longrightarrow> get_dimension_name item axis dim_type = Inr (Some k))
   \<and> (cube_dimensions item = Inr (PDict (mappings ds))
      \<and> (axis \<noteq> None \<or> dim_type \<noteq> None)
      \<and> (\<forall>(k', fs') \<in> set ds. \<not> entry_matches axis dim_type fs')
    \<longrightarrow> get_dimension_name item axis dim_type = Inr None)
   \<and> (cube_dimensions item = Inr (PDict kvs)
    \<longrightarrow> get_dimension_name item None None = Inl AssertionError)
   \<and> get_dimension_name spec_example_item (Some ''x'') None = Inr (Some ''x'')
   \<and> get_dimension_name spec_example_item None (Some ''temporal'') = Inr (Some ''time'')"
proof (intro conjI impI)
  assume a: "cube_dimensions item = Inr (PDict (mappings pre @ (k, PDict fs) # post))
      \<and> (\<forall>(k', fs') \<in> set pre. \<not> entry_matches axis dim_type fs')
      \<and> entry_matches axis dim_type fs"
  then have "axis \<noteq> None \<or> dim_type \<noteq> None"
    by (auto simp: entry_matches_def)
  with a have "get_dimension_name item axis dim_type
           = get_dimension_name_loop (mappings pre @ (k, PDict fs) # post) axis dim_type 0 False None"
    by (intro get_dimension_name_loop_eq) simp_all
  also from a have "\<dots> = Inr (Some k)" by (intro loop_first_match) simp_all
  finally show "get_dimension_name item axis dim_type = Inr (Some k)" .
next
  assume a: "cube_dimensions item = Inr (PDict (mappings ds))
      \<and> (axis \<noteq> None \<or> dim_type \<noteq> None)
      \<and> (\<forall>(k', fs') \<in> set ds. \<not> entry_matches axis dim_type fs')"
  then have "get_dimension_name item axis dim_type
           = get_dimension_name_loop (mappings ds) axis dim_type 0 False None"
    by (intro get_dimension_name_loop_eq) simp_all
  also from a have "\<dots> = Inr None" by (intro loop_no_match) simp_all
  finally show "get_dimension_name item axis dim_type = Inr None" .
next
  assume "cube_dimensions item = Inr (PDict kvs)"
  then show "get_dimension_name item None None = Inl AssertionError"
    by (simp add: get_dimension_name_def isinstance_dict_def)
next
  show "get_dimension_name spec_example_item (Some ''x'') None = Inr (Some ''x'')"
    unfolding spec_example_item_def by code_simp
next
  show "get_dimension_name spec_example_item None (Some ''temporal'') = Inr (Some ''time'')"
    unfolding spec_example_item_def by code_simp
qed

theorem get_dimension_name_witness:
  "get_dimension_name example_item (Some ''y'') None = Inr (Some ''y'')
   \<and> get_dimension_name example_item None (Some ''bands'') = Inr None
   \<and> get_dimension_name example_item None None = Inl AssertionError"
proof -
  let ?x = "(''x'', [(''axis'', PStr ''x''), (''step'', PFloat (- 10)), (''reference_system'', PInt 4326)])"
  let ?yf = "[(''axis'', PStr ''y''), (''step'', PInt (- 20)), (''reference_system'', PInt 32633)]"
  let ?t = "(''time'', [(''type'', PStr ''temporal'')])"
  have a: "cube_dimensions example_item
             = Inr (PDict (mappings [?x] @ (''y'', PDict ?yf) # mappings [?t]))
      \<and> (\<forall>(k', fs') \<in> set [?x]. \<not> entry_matches (Some ''y'') None fs')
      \<and> entry_matches (Some ''y'') None ?yf"
    by (simp add: example_item_def cube_dimensions_def getitem_def mappings_def
        entry_matches_def entry_field_def)
  have b: "cube_dimensions example_item = Inr (PDict (mappings [?x, (''y'', ?yf), ?t]))
      \<and> (Some ''y'' \<noteq> None \<or> Some ''bands'' \<noteq> (None :: string option))
      \<and> (\<forall>(k', fs') \<in> set [?x, (''y'', ?yf), ?t]. \<not> entry_matches None (Some ''bands'') fs')"
    by (simp add: example_item_def cube_dimensions_def getitem_def mappings_def
        entry_matches_def entry_field_def)
  have b': "cube_dimensions example_item = Inr (PDict (mappings [?x, (''y'', ?yf), ?t]))
      \<and> ((None :: string option) \<noteq> None \<or> Some ''bands'' \<noteq> None)
      \<and> (\<forall>(k', fs') \<in> set [?x, (''y'', ?yf), ?t]. \<not> entry_matches None (Some ''bands'') fs')"
    using b by simp
  have c: "cube_dimensions example_item = Inr (PDict (mappings [?x, (''y'', ?yf), ?t]))"
    using b by simp
  note t1 = get_dimension_name_first_match [THEN conjunct1, THEN mp, OF a]
  note t2 = get_dimension_name_first_match [THEN conjunct2, THEN conjunct1, THEN mp, OF b']
  note t3 = get_dimension_name_first_match [THEN conjunct2, THEN conjunct2, THEN conjunct1,
              THEN mp, OF c]
  from t1 t2 t3 show ?thesis by (intro conjI)
qed

section \<open>Properties of the filters on extra dimensions\<close>

lemma dict_set_map_of: "map_of (dict_set d k v) = (map_of d)(k \<mapsto> v)"
  by (induction d k v rule: dict_set.induct) (auto simp: fun_eq_iff)

lemma dict_set_keys: "set (map fst (dict_set d k v)) = insert k (set (map fst d))"
  by (induction d k v rule: dict_set.induct) auto

lemma dict_set_distinct: "distinct (map fst d) \<Longrightarrow> distinct (map fst (dict_set d k v))"
proof (induction d k v rule: dict_set.induct)
  case (1 k v)
  then show ?case by simp
next
  case (2 k' v' d k v)
  then show ?case using dict_set_keys [of d k v] by (auto simp del: set_map)
qed

lemma record_all_map_of:
  "map_of (record_all f bs) d = (case map_of (rev bs) d of None \<Rightarrow> map_of f d | Some v \<Rightarrow> Some v)"
proof (induction bs arbitrary: f)
  case Nil
  then show ?case by (simp add: record_all_def)
next
  case (Cons b bs)
  obtain k v where b: "b = (k, v)" by (cases b)
  have "map_of (record_all f (b # bs)) d = map_of (record_all (dict_set f k v) bs) d"
    by (simp add: record_all_def b)
  also have "\<dots> = (case map_of (rev bs) d of None \<Rightarrow> map_of (dict_set f k v) d | Some w \<Rightarrow> Some w)"
    by (rule Cons.IH)
  also have "\<dots> = (case map_of (rev (b # bs)) d of None \<Rightarrow> map_of f d | Some w \<Rightarrow> Some w)"
    by (auto simp: b dict_set_map_of map_add_def split: option.splits)
  finally show ?case .
qed

lemma record_all_distinct: "distinct (map fst f) \<Longrightarrow> distinct (map fst (record_all f bs))"
  unfolding record_all_def
  by (induction bs arbitrary: f) (auto simp: dict_set_distinct)

lemma record_all_append: "record_all f (bs @ cs) = record_all (record_all f bs) cs"
  by (simp add: record_all_def)

lemma node_filter_wf:
  assumes "wf_node n"
  shows "node_filter n = Inr (or_none (getitem n ''process_id''), spec_value n)"
  using assms
  by (auto simp: wf_node_def node_filter_def spec_value_def or_none_def Let_def isl_def
      split: sum.splits)

lemma node_filter_not_wf:
  assumes "\<not> wf_node n"
  shows "isl (node_filter n)"
proof (cases "getitem n ''process_id''")
  case (Inl e)
  then show ?thesis by (simp add: node_filter_def)
next
  case (Inr process_id)
  with assms show ?thesis
    by (auto simp: wf_node_def node_filter_def isl_def split: sum.splits)
qed

lemma is_equality_spec: "is_equality (or_none (getitem n ''process_id'')) = spec_is_equality n"
  by (auto simp: is_equality_def spec_is_equality_def)

lemma filter_nodes_wf:
  assumes "list_all wf_node ns"
  shows "filter_nodes dname ns f
           = Inr (record_all f (map (\<lambda>n. (dname, spec_value n)) (filter spec_is_equality ns)))"
  using assms
proof (induction ns arbitrary: f)
  case Nil
  then show ?case by (simp add: record_all_def)
next
  case (Cons n ns)
  then have n: "node_filter n = Inr (or_none (getitem n ''process_id''), spec_value n)"
    by (simp add: node_filter_wf)
  from Cons show ?case
    by (simp add: n is_equality_spec record_all_def)
qed

lemma filter_nodes_not_wf:
  assumes "\<not> list_all wf_node ns"
  shows "isl (filter_nodes dname ns f)"
  using assms
proof (induction ns arbitrary: f)
  case Nil
  then show ?case by simp
next
  case (Cons n ns)
  show ?case
  proof (cases "wf_node n")
    case True
    then have n: "node_filter n = Inr (or_none (getitem n ''process_id''), spec_value n)"
      by (rule node_filter_wf)
    from True Cons.prems have "\<not> list_all wf_node ns" by simp
    then show ?thesis using Cons.IH by (simp add: n)
  next
    case False
    then obtain e where "node_filter n = Inl e"
      using node_filter_not_wf [of n] by (auto simp: isl_def)
    then show ?thesis by simp
  qed
qed

lemma dimension_property_wf:
  assumes "wf_property name pv"
  shows "dimension_property name pv = Inr (spec_dimension_name name, spec_nodes pv)
         \<and> list_all wf_node (spec_nodes pv)"
  using assms
  by (auto simp: wf_property_def dimension_property_def spec_dimension_name_def spec_nodes_def
      or_none_def py_assert_def isinstance_dict_def dict_values_def Let_def
      split: sum.splits pyval.splits)

lemma dimension_property_not_wf:
  assumes "\<not> wf_property name pv"
  shows "isl (dimension_property name pv)
         \<or> (\<exists>d ns. dimension_property name pv = Inr (d, ns) \<and> \<not> list_all wf_node ns)"
  using assms
  by (auto simp: wf_property_def dimension_property_def
      py_assert_def isinstance_dict_def dict_values_def Let_def
      split: sum.splits pyval.splits)


lemma filter_properties_wf:
  assumes "wf_properties ps"
  shows "filter_properties ps f = Inr (record_all f (spec_bindings ps))"
  using assms
proof (induction ps arbitrary: f)
  case Nil
  then show ?case by (simp add: spec_bindings_def record_all_def)
next
  case (Cons p ps)
  obtain name pv where p: "p = (name, pv)" by (cases p)
  from Cons.prems have rest: "wf_properties ps" by (simp add: wf_properties_def)
  have sb: "spec_bindings ((name, pv) # ps)
              = (if startswith name ''cube:dimensions''
                 then map (\<lambda>n. (spec_dimension_name name, spec_value n))
                        (filter spec_is_equality (spec_nodes pv))
                 else []) @ spec_bindings ps"
    by (simp add: spec_bindings_def)
  show ?case
  proof (cases "startswith name ''cube:dimensions''")
    case True
    with Cons.prems p have "wf_property name pv" by (simp add: wf_properties_def)
    then have dp: "dimension_property name pv = Inr (spec_dimension_name name, spec_nodes pv)"
      and ns: "list_all wf_node (spec_nodes pv)"
      using dimension_property_wf by simp_all
    show ?thesis
      by (simp add: p True dp filter_nodes_wf [OF ns] Cons.IH [OF rest] sb record_all_append)
  next
    case False
    then show ?thesis by (simp add: p Cons.IH [OF rest] sb)
  qed
qed

lemma isl_bind: "isl m \<Longrightarrow> isl (bind m g)"
  by (cases m) simp_all

lemma filter_properties_not_wf:
  assumes "\<not> wf_properties ps"
  shows "isl (filter_properties ps f)"
  using assms
proof (induction ps arbitrary: f)
  case Nil
  then show ?case by (simp add: wf_properties_def)
next
  case (Cons p ps)
  obtain name pv where p: "p = (name, pv)" by (cases p)
  show ?case
  proof (cases "startswith name ''cube:dimensions''")
    case False
    with Cons.prems p have "\<not> wf_properties ps" by (simp add: wf_properties_def)
    then show ?thesis using Cons.IH False by (simp add: p)
  next
    case True
    show ?thesis
    proof (cases "wf_property name pv")
      case wf: True
      then have dp: "dimension_property name pv = Inr (spec_dimension_name name, spec_nodes pv)"
        and ns: "list_all wf_node (spec_nodes pv)"
        using dimension_property_wf by simp_all
      from wf Cons.prems p have "\<not> wf_properties ps" by (simp add: wf_properties_def)
      then show ?thesis using Cons.IH
        by (simp add: p True dp filter_nodes_wf [OF ns])
    next
      case False
      from dimension_property_not_wf [OF this] show ?thesis
      proof
        assume "isl (dimension_property name pv)"
        then show ?thesis by (simp add: p True isl_bind)
      next
        assume "\<exists>d ns. dimension_property name pv = Inr (d, ns) \<and> \<not> list_all wf_node ns"
        then obtain d ns where dp: "dimension_property name pv = Inr (d, ns)"
          and "\<not> list_all wf_node ns" by blast
        then have "isl (filter_nodes d ns f)" by (simp add: filter_nodes_not_wf)
        then show ?thesis by (simp add: p True dp isl_bind)
      qed
    qed
  qed
qed

text \<open>
  Claim C3. Let the properties of a reader be a mapping. If its properties whose key
  starts with \<^verbatim>\<open>cube:dimensions\<close> are well formed, \<^verbatim>\<open>get_extra_dimensions_filter\<close> returns
  a dictionary that binds every dimension name to the value of the last binding that
  the specification's reading gives for it: only those keys count, the name is the
  second dot-separated segment of the key, a node binds only when its process id is
  \<^verbatim>\<open>eq\<close> or \<^verbatim>\<open>=\<close>, and the value is \<^verbatim>\<open>y\<close> if \<^verbatim>\<open>x\<close> is a parameter reference and \<^verbatim>\<open>x\<close>
  otherwise. If one of those properties is not well formed, the call fails. The
  example of the specification gives the dictionary with \<^verbatim>\<open>level\<close> bound to 100.
\<close>

theorem get_extra_dimensions_filter_bindings:
  "(properties r = PDict ps \<and> wf_properties ps
      \<longrightarrow> (\<exists>f. get_extra_dimensions_filter r = Inr (PDict f) \<and> distinct (map fst f)
                \<and> (\<forall>d. map_of f d = map_of (rev (spec_bindings ps)) d)))
   \<and> (properties r = PDict ps \<and> \<not> wf_properties ps
      \<longrightarrow> isl (get_extra_dimensions_filter r))
   \<and> (properties r = PDict spec_example_properties
      \<longrightarrow> get_extra_dimensions_filter r = Inr (PDict [(''level'', PInt 100)]))"
proof (intro conjI impI)
  assume a: "properties r = PDict ps \<and> wf_properties ps"
  then have "get_extra_dimensions_filter r = Inr (PDict (record_all [] (spec_bindings ps)))"
    by (simp add: get_extra_dimensions_filter_def filter_properties_wf)
  moreover have "distinct (map fst (record_all [] (spec_bindings ps)))"
    by (rule record_all_distinct) simp
  moreover have "\<forall>d. map_of (record_all [] (spec_bindings ps)) d
                       = map_of (rev (spec_bindings ps)) d"
    by (simp add: record_all_map_of split: option.splits)
  ultimately show "\<exists>f. get_extra_dimensions_filter r = Inr (PDict f) \<and> distinct (map fst f)
                \<and> (\<forall>d. map_of f d = map_of (rev (spec_bindings ps)) d)"
    by blast
next
  assume "properties r = PDict ps \<and> \<not> wf_properties ps"
  then show "isl (get_extra_dimensions_filter r)"
    by (simp add: get_extra_dimensions_filter_def filter_properties_not_wf isl_bind)
next
  assume "properties r = PDict spec_example_properties"
  moreover have "filter_properties spec_example_properties [] = Inr [(''level'', PInt 100)]"
    unfolding spec_example_properties_def by code_simp
  ultimately show "get_extra_dimensions_filter r = Inr (PDict [(''level'', PInt 100)])"
    by (simp add: get_extra_dimensions_filter_def)
qed

theorem get_extra_dimensions_filter_witness:
  "(\<exists>f. get_extra_dimensions_filter (example_reader\<lparr>properties := PDict example_properties\<rparr>)
           = Inr (PDict f)
         \<and> map_of f ''level'' = Some (PInt 200))
   \<and> isl (get_extra_dimensions_filter
        (example_reader\<lparr>properties := PDict [(''cube:dimensions'', PDict [])]\<rparr>))
   \<and> get_extra_dimensions_filter (example_reader\<lparr>properties := PDict spec_example_properties\<rparr>)
        = Inr (PDict [(''level'', PInt 100)])"
proof (intro conjI)
  have wf: "properties (example_reader\<lparr>properties := PDict example_properties\<rparr>)
              = PDict example_properties \<and> wf_properties example_properties"
  proof
    show "wf_properties example_properties"
      unfolding example_properties_def by code_simp
  qed simp
  from get_extra_dimensions_filter_bindings [THEN conjunct1, THEN mp, OF wf]
  obtain f where f: "get_extra_dimensions_filter
                       (example_reader\<lparr>properties := PDict example_properties\<rparr>) = Inr (PDict f)"
    and m: "\<forall>d. map_of f d = map_of (rev (spec_bindings example_properties)) d"
    by blast
  have "map_of (rev (spec_bindings example_properties)) ''level'' = Some (PInt 200)"
    unfolding example_properties_def by code_simp
  with m have "map_of f ''level'' = Some (PInt 200)" by simp
  with f show "\<exists>f. get_extra_dimensions_filter
                      (example_reader\<lparr>properties := PDict example_properties\<rparr>) = Inr (PDict f)
                  \<and> map_of f ''level'' = Some (PInt 200)"
    by blast
next
  have nwf: "properties (example_reader\<lparr>properties := PDict [(''cube:dimensions'', PDict [])]\<rparr>)
               = PDict [(''cube:dimensions'', PDict [])]
             \<and> \<not> wf_properties [(''cube:dimensions'', PDict [])]"
  proof
    show "\<not> wf_properties [(''cube:dimensions'', PDict [])]" by code_simp
  qed simp
  from get_extra_dimensions_filter_bindings [THEN conjunct2, THEN conjunct1, THEN mp, OF nwf]
  show "isl (get_extra_dimensions_filter
        (example_reader\<lparr>properties := PDict [(''cube:dimensions'', PDict [])]\<rparr>))" .
next
  have "properties (example_reader\<lparr>properties := PDict spec_example_properties\<rparr>)
          = PDict spec_example_properties"
    by simp
  from get_extra_dimensions_filter_bindings [THEN conjunct2, THEN conjunct2, THEN mp, OF this]
  show "get_extra_dimensions_filter (example_reader\<lparr>properties := PDict spec_example_properties\<rparr>)
        = Inr (PDict [(''level'', PInt 100)])" .
qed


text \<open>
  Claim C10. When the properties of a reader are \<^verbatim>\<open>None\<close>, or any value that is not a
  mapping, \<^verbatim>\<open>get_extra_dimensions_filter\<close> returns the empty dictionary and
  \<^verbatim>\<open>_filter_by_extra_dimensions\<close> returns the dataset it was given, for every selection
  function and every dataset.
\<close>

theorem properties_not_a_mapping:
  "properties r = PNone \<or> \<not> isinstance_dict (properties r)
   \<longrightarrow> get_extra_dimensions_filter r = Inr (PDict [])
       \<and> filter_by_extra_dimensions sel r dataset = Inr dataset"
proof
  assume "properties r = PNone \<or> \<not> isinstance_dict (properties r)"
  then have nd: "\<not> isinstance_dict (properties r)"
    by (auto simp: isinstance_dict_def)
  then show "get_extra_dimensions_filter r = Inr (PDict [])
       \<and> filter_by_extra_dimensions sel r dataset = Inr dataset"
    by (cases "properties r")
       (simp_all add: isinstance_dict_def get_extra_dimensions_filter_def
          filter_by_extra_dimensions_def)
qed

theorem properties_not_a_mapping_witness:
  "get_extra_dimensions_filter example_reader = Inr (PDict [])
   \<and> filter_by_extra_dimensions example_sel example_reader example_dataset = Inr example_dataset
   \<and> get_extra_dimensions_filter (example_reader\<lparr>properties := PList [PStr ''level'']\<rparr>)
        = Inr (PDict [])
   \<and> filter_by_extra_dimensions example_sel
        (example_reader\<lparr>properties := PList [PStr ''level'']\<rparr>) example_dataset
        = Inr example_dataset"
proof -
  have a: "properties example_reader = PNone \<or> \<not> isinstance_dict (properties example_reader)"
    by (simp add: example_reader_def)
  have b: "properties (example_reader\<lparr>properties := PList [PStr ''level'']\<rparr>) = PNone
           \<or> \<not> isinstance_dict (properties (example_reader\<lparr>properties := PList [PStr ''level'']\<rparr>))"
    by (simp add: isinstance_dict_def)
  from properties_not_a_mapping [of example_reader example_sel example_dataset, THEN mp, OF a]
    properties_not_a_mapping [of "example_reader\<lparr>properties := PList [PStr ''level'']\<rparr>"
      example_sel example_dataset, THEN mp, OF b]
  show ?thesis by simp
qed

section \<open>Properties of the constructor\<close>

lemma bind_eq_Inr_iff: "bind m g = Inr y \<longleftrightarrow> (\<exists>x. m = Inr x \<and> g x = Inr y)"
  by (cases m) auto

lemma py_assert_Inr: "py_assert b = Inr u \<longleftrightarrow> b"
  by (simp add: py_assert_def)

lemma check_items_Inr: "check_items its = Inr u \<longleftrightarrow> (\<exists>x xs. its = PList (x # xs))"
  by (cases its) (auto simp: check_items_def py_assert_def neq_Nil_conv)

lemma chain_le_True:
  "chain_le lo a b hi = Inr True
     \<longleftrightarrow> (\<exists>x y. num_of a = Some x \<and> num_of b = Some y \<and> lo \<le> x \<and> x \<le> y \<and> y \<le> hi)"
  by (auto simp: chain_le_def split: option.splits)

lemma four_elements: "length xs = 4 \<longleftrightarrow> (\<exists>a b c d. xs = [a, b, c, d])"
  by (auto simp: length_Suc_conv eval_nat_numeral)

lemma check_bbox_Inr:
  "check_bbox bb = Inr u
     \<longleftrightarrow> (\<exists>a b c d w s e n. bb = PTuple [a, b, c, d]
            \<and> num_of a = Some w \<and> num_of b = Some s \<and> num_of c = Some e \<and> num_of d = Some n
            \<and> - 180 \<le> w \<and> w \<le> e \<and> e \<le> 180 \<and> - 90 \<le> s \<and> s \<le> n \<and> n \<le> 90)"
proof (cases bb)
  case (PTuple xs)
  show ?thesis
  proof (cases "length xs = 4")
    case True
    then obtain a b c d where xs: "xs = [a, b, c, d]" by (auto simp: four_elements)
    have "check_bbox bb = Inr u
            \<longleftrightarrow> chain_le (- 180) a c 180 = Inr True \<and> chain_le (- 90) b d 90 = Inr True"
      by (auto simp: PTuple xs check_bbox_def bind_eq_Inr_iff py_assert_Inr)
    then show ?thesis by (auto simp: PTuple xs chain_le_True)
  next
    case False
    then show ?thesis by (auto simp: PTuple check_bbox_def)
  qed
qed (simp_all add: check_bbox_def)


lemma isinstance_datetime_iff: "isinstance_datetime v \<longleftrightarrow> (\<exists>t. v = PDatetime t)"
  by (cases v) (simp_all add: isinstance_datetime_def)

lemma check_sequence:
  "check_temporal_extent (PTuple xs) = check_temporal_extent (PList xs)"
  by (simp add: check_temporal_extent_def py_len_def py_index_def)

lemma check_temporal_extent_list:
  "check_temporal_extent (PList xs) = Inr u
     \<longleftrightarrow> xs = []
         \<or> (\<exists>t0 t1 rest. xs = PDatetime t0 # t1 # rest
               \<and> (t1 = PNone \<or> (\<exists>t. t1 = PDatetime t \<and> t0 \<le> t)))"
proof (cases xs)
  case Nil
  then show ?thesis by (simp add: check_temporal_extent_def py_len_def)
next
  case (Cons t0 ys)
  show ?thesis
  proof (cases ys)
    case Nil
    then show ?thesis
      by (auto simp: Cons check_temporal_extent_def py_len_def py_index_def
          bind_eq_Inr_iff py_assert_Inr)
  next
    case (Cons t1 rest)
    then show ?thesis
      by (auto simp: \<open>xs = t0 # ys\<close> check_temporal_extent_def py_len_def py_index_def
          bind_eq_Inr_iff py_assert_Inr isinstance_datetime_iff datetime_of_def)
  qed
qed

lemma check_temporal_extent_Inr:
  "check_temporal_extent te = Inr u
     \<longleftrightarrow> te = PNone
         \<or> py_len te = Inr 0
         \<or> (\<exists>t0. py_index te 0 = Inr (PDatetime t0)
               \<and> (py_index te 1 = Inr PNone
                    \<or> (\<exists>t1. py_index te 1 = Inr (PDatetime t1) \<and> t0 \<le> t1)))"
proof (cases te)
  case (PList xs)
  show ?thesis
    unfolding PList check_temporal_extent_list
    by (cases xs; cases "tl xs") (auto simp: py_len_def py_index_def)
next
  case (PTuple xs)
  show ?thesis
    unfolding PTuple check_sequence check_temporal_extent_list
    by (cases xs; cases "tl xs") (auto simp: py_len_def py_index_def)
next
  case (PStr x)
  then show ?thesis
    by (cases x) (auto simp: check_temporal_extent_def py_len_def py_index_def
          bind_eq_Inr_iff py_assert_Inr isinstance_datetime_def)
next
  case (PDict x)
  then show ?thesis
    by (cases x) (auto simp: check_temporal_extent_def py_len_def py_index_def)
qed (simp_all add: check_temporal_extent_def py_len_def py_index_def)

lemma str_lower_Inr: "str_lower v = Inr s \<longleftrightarrow> (\<exists>t. v = PStr t \<and> s = lower t)"
  by (cases v) (auto simp: str_lower_def)

lemma init_Inr_iff:
  "init chk util its bnds bb te props = Inr r \<longleftrightarrow>
     check_items its = Inr () \<and> check_bbox bb = Inr () \<and> check_temporal_extent te = Inr ()
     \<and> (\<exists>bkt credentials ep ak sk lowered rg.
           first_bucket chk its = Inr bkt
           \<and> get_credentials_by_bucket util bkt = Inr credentials
           \<and> getitem credentials ''endpoint'' = Inr ep
           \<and> getitem credentials ''access_key_id'' = Inr ak
           \<and> getitem credentials ''secret_access_key'' = Inr sk
           \<and> str_lower ep = Inr lowered
           \<and> parse_region util lowered = Inr rg
           \<and> r = \<lparr>items = its, bbox = bb, bands = bnds, temporal_extent = te, bucket = bkt,
                   stored_endpoint = ep, access_key_id = ak, secret_access_key = sk,
                   region = rg, properties = props\<rparr>)"
  unfolding init_def bind_eq_Inr_iff by auto

lemma init_fields:
  assumes "init chk util its bnds bb te props = Inr r"
  shows "items r = its" and "bbox r = bb" and "temporal_extent r = te" and "properties r = props"
    and "\<exists>ep. stored_endpoint r = PStr ep"
  using assms unfolding init_Inr_iff str_lower_Inr by auto

lemma init_other_bbox:
  assumes "init chk util its bnds bb0 te props = Inr r0" and "check_bbox bb = Inr ()"
  shows "init chk util its bnds bb te props = Inr (r0\<lparr>bbox := bb\<rparr>)"
  using assms unfolding init_Inr_iff by auto

lemma init_isl_items: "check_items its = Inl e \<Longrightarrow> init chk util its bnds bb te props = Inl e"
  by (simp add: init_def)

lemma init_isl_temporal:
  assumes "isl (check_temporal_extent te)"
  shows "isl (init chk util its bnds bb te props)"
proof (cases "init chk util its bnds bb te props")
  case (Inr r)
  then have "check_temporal_extent te = Inr ()" by (simp add: init_Inr_iff)
  with assms show ?thesis by simp
qed simp

lemma example_construction:
  "init lenient_check example_util example_items (PList [PStr ''B02'']) example_bbox
     (PTuple [PDatetime 0, PNone]) PNone = Inr example_reader"
  unfolding example_util_def example_items_def example_bbox_def example_reader_def
  by code_simp

lemma init_other_temporal:
  assumes "init chk util its bnds bb te0 props = Inr r0" and "check_temporal_extent te = Inr ()"
  shows "init chk util its bnds bb te props = Inr (r0\<lparr>temporal_extent := te\<rparr>)"
  using assms unfolding init_Inr_iff by auto

lemma check_temporal_extent_start:
  assumes "te = PTuple (t0 # ts) \<or> te = PList (t0 # ts)" and "\<not> isinstance_datetime t0"
  shows "isl (check_temporal_extent te)"
  using assms
  by (auto simp: check_temporal_extent_def py_len_def py_index_def py_assert_def)

lemma check_temporal_extent_order:
  assumes "te = PTuple (PDatetime a # PDatetime b # ts) \<or> te = PList (PDatetime a # PDatetime b # ts)"
    and "b < a"
  shows "isl (check_temporal_extent te)"
  using assms
  by (auto simp: check_temporal_extent_def py_len_def py_index_def py_assert_def
      isinstance_datetime_def datetime_of_def)

text \<open>
  Claim C2. For a bounding box that is a tuple of four numbers \<open>(w, s, e, n)\<close> with
  \<open>-180 \<le> w \<le> e \<le> 180\<close> and \<open>-90 \<le> s \<le> n \<le> 90\<close>, construction succeeds, and stores
  the bounding box, whenever the other arguments admit construction with some bounding
  box at all. For any other bounding box (not a tuple, not of four elements, an element
  that is no number, an order or a range violated) construction fails, whatever the
  other arguments.
\<close>

theorem bbox_validation:
  "(bb = PTuple [a, b, c, d]
      \<and> num_of a = Some w \<and> num_of b = Some s \<and> num_of c = Some e \<and> num_of d = Some n
      \<and> - 180 \<le> w \<and> w \<le> e \<and> e \<le> 180 \<and> - 90 \<le> s \<and> s \<le> n \<and> n \<le> 90
      \<and> init chk util its bnds bb0 te props = Inr r0
    \<longrightarrow> init chk util its bnds bb te props = Inr (r0\<lparr>bbox := bb\<rparr>))
   \<and> (\<not> (\<exists>a b c d w s e n. bb = PTuple [a, b, c, d]
            \<and> num_of a = Some w \<and> num_of b = Some s \<and> num_of c = Some e \<and> num_of d = Some n
            \<and> - 180 \<le> w \<and> w \<le> e \<and> e \<le> 180 \<and> - 90 \<le> s \<and> s \<le> n \<and> n \<le> 90)
    \<longrightarrow> isl (init chk util its bnds bb te props))"
proof (intro conjI impI)
  assume a: "bb = PTuple [a, b, c, d]
      \<and> num_of a = Some w \<and> num_of b = Some s \<and> num_of c = Some e \<and> num_of d = Some n
      \<and> - 180 \<le> w \<and> w \<le> e \<and> e \<le> 180 \<and> - 90 \<le> s \<and> s \<le> n \<and> n \<le> 90
      \<and> init chk util its bnds bb0 te props = Inr r0"
  then have "check_bbox bb = Inr ()"
    unfolding check_bbox_Inr by blast
  moreover from a have "init chk util its bnds bb0 te props = Inr r0" by simp
  ultimately show "init chk util its bnds bb te props = Inr (r0\<lparr>bbox := bb\<rparr>)"
    by (intro init_other_bbox)
next
  assume n: "\<not> (\<exists>a b c d w s e n. bb = PTuple [a, b, c, d]
            \<and> num_of a = Some w \<and> num_of b = Some s \<and> num_of c = Some e \<and> num_of d = Some n
            \<and> - 180 \<le> w \<and> w \<le> e \<and> e \<le> 180 \<and> - 90 \<le> s \<and> s \<le> n \<and> n \<le> 90)"
  show "isl (init chk util its bnds bb te props)"
  proof (cases "init chk util its bnds bb te props")
    case (Inr r)
    then have "check_bbox bb = Inr ()" by (simp add: init_Inr_iff)
    with n show ?thesis unfolding check_bbox_Inr by blast
  qed simp
qed

theorem bbox_validation_witness:
  "init lenient_check example_util example_items (PList [PStr ''B02''])
       (PTuple [PFloat (- 10), PInt 40, PFloat 10.5, PInt 60]) (PTuple [PDatetime 0, PNone]) PNone
     = Inr (example_reader\<lparr>bbox := PTuple [PFloat (- 10), PInt 40, PFloat 10.5, PInt 60]\<rparr>)
   \<and> isl (init lenient_check example_util example_items (PList [PStr ''B02''])
       (PTuple [PFloat 20, PFloat 0, PFloat 10, PFloat 10]) (PTuple [PDatetime 0, PNone]) PNone)
   \<and> isl (init lenient_check example_util example_items (PList [PStr ''B02''])
       (PTuple [PFloat 0, PFloat 0, PFloat 10]) (PTuple [PDatetime 0, PNone]) PNone)
   \<and> isl (init lenient_check example_util example_items (PList [PStr ''B02''])
       (PList [PFloat 0, PFloat 0, PFloat 10, PFloat 10]) (PTuple [PDatetime 0, PNone]) PNone)
   \<and> isl (init lenient_check example_util example_items (PList [PStr ''B02''])
       (PTuple [PFloat 0, PFloat 0, PFloat 10, PFloat 91]) (PTuple [PDatetime 0, PNone]) PNone)"
proof (intro conjI)
  have ok: "PTuple [PFloat (- 10), PInt 40, PFloat 10.5, PInt 60]
              = PTuple [PFloat (- 10), PInt 40, PFloat 10.5, PInt 60]
      \<and> num_of (PFloat (- 10)) = Some (- 10) \<and> num_of (PInt 40) = Some 40
      \<and> num_of (PFloat 10.5) = Some 10.5 \<and> num_of (PInt 60) = Some 60
      \<and> - 180 \<le> (- 10 :: real) \<and> (- 10 :: real) \<le> 10.5 \<and> (10.5 :: real) \<le> 180
      \<and> - 90 \<le> (40 :: real) \<and> (40 :: real) \<le> 60 \<and> (60 :: real) \<le> 90
      \<and> init lenient_check example_util example_items (PList [PStr ''B02'']) example_bbox
            (PTuple [PDatetime 0, PNone]) PNone = Inr example_reader"
    by (simp add: num_of_def example_construction)
  from bbox_validation [THEN conjunct1, THEN mp, OF ok]
  show "init lenient_check example_util example_items (PList [PStr ''B02''])
       (PTuple [PFloat (- 10), PInt 40, PFloat 10.5, PInt 60]) (PTuple [PDatetime 0, PNone]) PNone
     = Inr (example_reader\<lparr>bbox := PTuple [PFloat (- 10), PInt 40, PFloat 10.5, PInt 60]\<rparr>)" .
next
  have "\<not> (\<exists>a b c d w s e n. PTuple [PFloat 20, PFloat 0, PFloat 10, PFloat 10] = PTuple [a, b, c, d]
            \<and> num_of a = Some w \<and> num_of b = Some s \<and> num_of c = Some e \<and> num_of d = Some n
            \<and> - 180 \<le> w \<and> w \<le> e \<and> e \<le> 180 \<and> - 90 \<le> s \<and> s \<le> n \<and> n \<le> 90)"
    by (auto simp: num_of_def)
  from bbox_validation [THEN conjunct2, THEN mp, OF this]
  show "isl (init lenient_check example_util example_items (PList [PStr ''B02''])
       (PTuple [PFloat 20, PFloat 0, PFloat 10, PFloat 10]) (PTuple [PDatetime 0, PNone]) PNone)" .
next
  have "\<not> (\<exists>a b c d w s e n. PTuple [PFloat 0, PFloat 0, PFloat 10] = PTuple [a, b, c, d]
            \<and> num_of a = Some w \<and> num_of b = Some s \<and> num_of c = Some e \<and> num_of d = Some n
            \<and> - 180 \<le> w \<and> w \<le> e \<and> e \<le> 180 \<and> - 90 \<le> s \<and> s \<le> n \<and> n \<le> 90)"
    by simp
  from bbox_validation [THEN conjunct2, THEN mp, OF this]
  show "isl (init lenient_check example_util example_items (PList [PStr ''B02''])
       (PTuple [PFloat 0, PFloat 0, PFloat 10]) (PTuple [PDatetime 0, PNone]) PNone)" .
next
  have "\<not> (\<exists>a b c d w s e n. PList [PFloat 0, PFloat 0, PFloat 10, PFloat 10] = PTuple [a, b, c, d]
            \<and> num_of a = Some w \<and> num_of b = Some s \<and> num_of c = Some e \<and> num_of d = Some n
            \<and> - 180 \<le> w \<and> w \<le> e \<and> e \<le> 180 \<and> - 90 \<le> s \<and> s \<le> n \<and> n \<le> 90)"
    by simp
  from bbox_validation [THEN conjunct2, THEN mp, OF this]
  show "isl (init lenient_check example_util example_items (PList [PStr ''B02''])
       (PList [PFloat 0, PFloat 0, PFloat 10, PFloat 10]) (PTuple [PDatetime 0, PNone]) PNone)" .
next
  have "\<not> (\<exists>a b c d w s e n. PTuple [PFloat 0, PFloat 0, PFloat 10, PFloat 91] = PTuple [a, b, c, d]
            \<and> num_of a = Some w \<and> num_of b = Some s \<and> num_of c = Some e \<and> num_of d = Some n
            \<and> - 180 \<le> w \<and> w \<le> e \<and> e \<le> 180 \<and> - 90 \<le> s \<and> s \<le> n \<and> n \<le> 90)"
    by (auto simp: num_of_def)
  from bbox_validation [THEN conjunct2, THEN mp, OF this]
  show "isl (init lenient_check example_util example_items (PList [PStr ''B02''])
       (PTuple [PFloat 0, PFloat 0, PFloat 10, PFloat 91]) (PTuple [PDatetime 0, PNone]) PNone)" .
qed

text \<open>
  Claim C6, as the code has it. When construction succeeds, the items are a non-empty
  list, and the temporal extent is \<^verbatim>\<open>None\<close>, or empty, or starts with a datetime followed
  by \<^verbatim>\<open>None\<close> or by a datetime that is not earlier. So construction fails when the
  items are no list or an empty list, when a non-empty temporal extent starts with
  anything but a datetime (a missing start included), and when the end is earlier than
  the start. The start is not required in every temporal extent: wherever
  construction succeeds, it also succeeds with the temporal extent \<^verbatim>\<open>None\<close> and with
  the empty tuple.
\<close>

theorem items_and_temporal_extent_validation:
  "(init chk util its bnds bb te props = Inr r
      \<longrightarrow> (\<exists>x xs. its = PList (x # xs))
          \<and> (te = PNone \<or> py_len te = Inr 0
              \<or> (\<exists>t0. py_index te 0 = Inr (PDatetime t0)
                    \<and> (py_index te 1 = Inr PNone
                         \<or> (\<exists>t1. py_index te 1 = Inr (PDatetime t1) \<and> t0 \<le> t1)))))
   \<and> ((\<forall>xs. its \<noteq> PList xs) \<or> its = PList []
      \<longrightarrow> init chk util its bnds bb te props = Inl AssertionError)
   \<and> ((te = PTuple (t0 # ts) \<or> te = PList (t0 # ts)) \<and> \<not> isinstance_datetime t0
      \<longrightarrow> isl (init chk util its bnds bb te props))
   \<and> ((te = PTuple (PDatetime a # PDatetime b # ts) \<or> te = PList (PDatetime a # PDatetime b # ts))
        \<and> b < a
      \<longrightarrow> isl (init chk util its bnds bb te props))
   \<and> (init chk util its bnds bb te props = Inr r
      \<longrightarrow> init chk util its bnds bb PNone props = Inr (r\<lparr>temporal_extent := PNone\<rparr>)
          \<and> init chk util its bnds bb (PTuple []) props = Inr (r\<lparr>temporal_extent := PTuple []\<rparr>))"
proof (intro conjI impI)
  assume a: "init chk util its bnds bb te props = Inr r"
  then show "\<exists>x xs. its = PList (x # xs)"
    by (simp add: init_Inr_iff check_items_Inr)
  from a have "check_temporal_extent te = Inr ()" by (simp add: init_Inr_iff)
  then show "te = PNone \<or> py_len te = Inr 0
              \<or> (\<exists>t0. py_index te 0 = Inr (PDatetime t0)
                    \<and> (py_index te 1 = Inr PNone
                         \<or> (\<exists>t1. py_index te 1 = Inr (PDatetime t1) \<and> t0 \<le> t1)))"
    by (simp only: check_temporal_extent_Inr)
next
  assume "(\<forall>xs. its \<noteq> PList xs) \<or> its = PList []"
  then have "check_items its = Inl AssertionError"
    by (cases its) (auto simp: check_items_def py_assert_def)
  then show "init chk util its bnds bb te props = Inl AssertionError"
    by (rule init_isl_items)
next
  assume "(te = PTuple (t0 # ts) \<or> te = PList (t0 # ts)) \<and> \<not> isinstance_datetime t0"
  then have "isl (check_temporal_extent te)"
    by (intro check_temporal_extent_start [where ?t0.0 = t0 and ts = ts]) simp_all
  then show "isl (init chk util its bnds bb te props)" by (rule init_isl_temporal)
next
  assume "(te = PTuple (PDatetime a # PDatetime b # ts) \<or> te = PList (PDatetime a # PDatetime b # ts))
        \<and> b < a"
  then have "isl (check_temporal_extent te)"
    by (intro check_temporal_extent_order [where a = a and b = b and ts = ts]) simp_all
  then show "isl (init chk util its bnds bb te props)" by (rule init_isl_temporal)
next
  assume a: "init chk util its bnds bb te props = Inr r"
  have "check_temporal_extent PNone = Inr ()" by (simp add: check_temporal_extent_def)
  with a show "init chk util its bnds bb PNone props = Inr (r\<lparr>temporal_extent := PNone\<rparr>)"
    by (rule init_other_temporal)
  have "check_temporal_extent (PTuple []) = Inr ()"
    by (simp add: check_temporal_extent_def py_len_def)
  with a show "init chk util its bnds bb (PTuple []) props = Inr (r\<lparr>temporal_extent := PTuple []\<rparr>)"
    by (rule init_other_temporal)
qed

theorem items_and_temporal_extent_witness:
  "init lenient_check example_util (PList []) (PList [PStr ''B02'']) example_bbox
       (PTuple [PDatetime 0, PNone]) PNone = Inl AssertionError
   \<and> init lenient_check example_util (PTuple [PDict []]) (PList [PStr ''B02'']) example_bbox
       (PTuple [PDatetime 0, PNone]) PNone = Inl AssertionError
   \<and> isl (init lenient_check example_util example_items (PList [PStr ''B02'']) example_bbox
       (PTuple [PStr ''2020-01-01'', PNone]) PNone)
   \<and> isl (init lenient_check example_util example_items (PList [PStr ''B02'']) example_bbox
       (PTuple [PNone, PDatetime 5]) PNone)
   \<and> isl (init lenient_check example_util example_items (PList [PStr ''B02'']) example_bbox
       (PTuple [PDatetime 5, PDatetime 4]) PNone)
   \<and> init lenient_check example_util example_items (PList [PStr ''B02'']) example_bbox PNone PNone
       = Inr (example_reader\<lparr>temporal_extent := PNone\<rparr>)
   \<and> (\<exists>x xs. example_items = PList (x # xs))"
proof (intro conjI)
  have "(\<forall>xs. PList [] \<noteq> PList xs) \<or> PList [] = PList []" by simp
  from items_and_temporal_extent_validation
    [THEN conjunct2, THEN conjunct1, THEN mp, OF this]
  show "init lenient_check example_util (PList []) (PList [PStr ''B02'']) example_bbox
       (PTuple [PDatetime 0, PNone]) PNone = Inl AssertionError" .
next
  have "(\<forall>xs. PTuple [PDict []] \<noteq> PList xs) \<or> PTuple [PDict []] = PList []" by simp
  from items_and_temporal_extent_validation
    [THEN conjunct2, THEN conjunct1, THEN mp, OF this]
  show "init lenient_check example_util (PTuple [PDict []]) (PList [PStr ''B02'']) example_bbox
       (PTuple [PDatetime 0, PNone]) PNone = Inl AssertionError" .
next
  have "(PTuple [PStr ''2020-01-01'', PNone] = PTuple (PStr ''2020-01-01'' # [PNone])
          \<or> PTuple [PStr ''2020-01-01'', PNone] = PList (PStr ''2020-01-01'' # [PNone]))
        \<and> \<not> isinstance_datetime (PStr ''2020-01-01'')"
    by (simp add: isinstance_datetime_def)
  from items_and_temporal_extent_validation
    [THEN conjunct2, THEN conjunct2, THEN conjunct1, THEN mp, OF this]
  show "isl (init lenient_check example_util example_items (PList [PStr ''B02'']) example_bbox
       (PTuple [PStr ''2020-01-01'', PNone]) PNone)" .
next
  have "(PTuple [PNone, PDatetime 5] = PTuple (PNone # [PDatetime 5])
          \<or> PTuple [PNone, PDatetime 5] = PList (PNone # [PDatetime 5]))
        \<and> \<not> isinstance_datetime PNone"
    by (simp add: isinstance_datetime_def)
  from items_and_temporal_extent_validation
    [THEN conjunct2, THEN conjunct2, THEN conjunct1, THEN mp, OF this]
  show "isl (init lenient_check example_util example_items (PList [PStr ''B02'']) example_bbox
       (PTuple [PNone, PDatetime 5]) PNone)" .
next
  have "(PTuple [PDatetime 5, PDatetime 4] = PTuple (PDatetime 5 # PDatetime 4 # [])
          \<or> PTuple [PDatetime 5, PDatetime 4] = PList (PDatetime 5 # PDatetime 4 # []))
        \<and> (4 :: int) < 5"
    by simp
  from items_and_temporal_extent_validation
    [THEN conjunct2, THEN conjunct2, THEN conjunct2, THEN conjunct1, THEN mp, OF this]
  show "isl (init lenient_check example_util example_items (PList [PStr ''B02'']) example_bbox
       (PTuple [PDatetime 5, PDatetime 4]) PNone)" .
next
  from items_and_temporal_extent_validation
    [THEN conjunct2, THEN conjunct2, THEN conjunct2, THEN conjunct2, THEN mp,
     OF example_construction, THEN conjunct1]
  show "init lenient_check example_util example_items (PList [PStr ''B02'']) example_bbox PNone PNone
       = Inr (example_reader\<lparr>temporal_extent := PNone\<rparr>)" .
next
  from items_and_temporal_extent_validation
    [THEN conjunct1, THEN mp, OF example_construction, THEN conjunct1]
  show "\<exists>x xs. example_items = PList (x # xs)" .
qed

text \<open>
  The claim as stated, with a start required in every temporal extent, is false: the
  constructor accepts the empty tuple.
\<close>

theorem empty_temporal_extent_counterexample:
  "init lenient_check example_util example_items (PList [PStr ''B02'']) example_bbox (PTuple []) PNone
     = Inr (example_reader\<lparr>temporal_extent := PTuple []\<rparr>)"
  unfolding example_util_def example_items_def example_bbox_def example_reader_def
  by code_simp

section \<open>Properties of the filesystem handle\<close>

lemma has_scheme_append: "has_scheme (xs @ ''://'' @ ys)"
  by (induction xs) (simp_all add: startswith_def)

lemma startswith_https_has_scheme:
  assumes "startswith s ''https://''"
  shows "has_scheme s"
proof -
  let ?n = "length ''https://''"
  from assms have t: "take ?n s = ''https://''" unfolding startswith_def .
  have "s = take ?n s @ drop ?n s" by (rule append_take_drop_id [symmetric])
  then have "s = ''https://'' @ drop ?n s" unfolding t .
  then have "s = ''https'' @ ''://'' @ drop ?n s" by simp
  moreover have "has_scheme (''https'' @ ''://'' @ drop ?n s)" by (rule has_scheme_append)
  ultimately show ?thesis by (rule ssubst)
qed


text \<open>
  Claim C9, as the code has it. For a reader whose stored endpoint is a string, as it is
  in every reader that the constructor returns, \<^verbatim>\<open>create_s3filesystem\<close> builds the handle
  with anonymous access off and the stored access key and secret. The endpoint URL is
  made from the lower-cased stored endpoint: it is that string when it starts with
  \<^verbatim>\<open>https://\<close>, and that string after \<^verbatim>\<open>https://\<close> when it names no scheme.
\<close>

theorem create_s3filesystem_endpoint:
  "(stored_endpoint r = PStr ep
      \<longrightarrow> (\<exists>u. create_s3filesystem r
                   = Inr \<lparr>anon = False, endpoint_url = u, key = access_key_id r,
                          secret = secret_access_key r\<rparr>
               \<and> (startswith (lower ep) ''https://'' \<longrightarrow> u = lower ep)
               \<and> (\<not> has_scheme (lower ep) \<longrightarrow> u = ''https://'' @ lower ep)))
   \<and> (init chk util its bnds bb te props = Inr r \<longrightarrow> (\<exists>ep. stored_endpoint r = PStr ep))"
proof (intro conjI impI)
  assume a: "stored_endpoint r = PStr ep"
  show "\<exists>u. create_s3filesystem r
                   = Inr \<lparr>anon = False, endpoint_url = u, key = access_key_id r,
                          secret = secret_access_key r\<rparr>
               \<and> (startswith (lower ep) ''https://'' \<longrightarrow> u = lower ep)
               \<and> (\<not> has_scheme (lower ep) \<longrightarrow> u = ''https://'' @ lower ep)"
  proof (cases "startswith (lower ep) ''https://''")
    case True
    then have "has_scheme (lower ep)" by (rule startswith_https_has_scheme)
    with True a show ?thesis
      by (simp add: create_s3filesystem_def endpoint_def str_lower_def)
  next
    case False
    with a show ?thesis
      by (simp add: create_s3filesystem_def endpoint_def str_lower_def)
  qed
next
  assume "init chk util its bnds bb te props = Inr r"
  then show "\<exists>ep. stored_endpoint r = PStr ep" by (rule init_fields)
qed


theorem create_s3filesystem_witness:
  "create_s3filesystem example_reader
     = Inr \<lparr>anon = False, endpoint_url = ''https://s3.example.com'', key = PStr ''AK'',
            secret = PStr ''SK''\<rparr>
   \<and> create_s3filesystem (example_reader\<lparr>stored_endpoint := PStr ''HTTPS://Cos.Test''\<rparr>)
     = Inr \<lparr>anon = False, endpoint_url = ''https://cos.test'', key = PStr ''AK'',
            secret = PStr ''SK''\<rparr>
   \<and> (\<exists>ep. stored_endpoint example_reader = PStr ep)"
proof (intro conjI)
  have s: "stored_endpoint example_reader = PStr ''S3.Example.COM''"
    by (simp add: example_reader_def)
  have l: "lower ''S3.Example.COM'' = ''s3.example.com''" by code_simp
  have n: "\<not> has_scheme (lower ''S3.Example.COM'')" unfolding l by code_simp
  from create_s3filesystem_endpoint [THEN conjunct1, THEN mp, OF s]
  obtain u where u: "create_s3filesystem example_reader
                   = Inr \<lparr>anon = False, endpoint_url = u, key = access_key_id example_reader,
                          secret = secret_access_key example_reader\<rparr>
      \<and> (startswith (lower ''S3.Example.COM'') ''https://'' \<longrightarrow> u = lower ''S3.Example.COM'')
      \<and> (\<not> has_scheme (lower ''S3.Example.COM'') \<longrightarrow> u = ''https://'' @ lower ''S3.Example.COM'')" ..
  note u1 = u [THEN conjunct1]
  from u [THEN conjunct2, THEN conjunct2, THEN mp, OF n]
  have "u = ''https://s3.example.com''" unfolding l by simp
  with u1 show "create_s3filesystem example_reader
     = Inr \<lparr>anon = False, endpoint_url = ''https://s3.example.com'', key = PStr ''AK'',
            secret = PStr ''SK''\<rparr>"
    by (simp add: example_reader_def)
next
  let ?r = "example_reader\<lparr>stored_endpoint := PStr ''HTTPS://Cos.Test''\<rparr>"
  have s: "stored_endpoint ?r = PStr ''HTTPS://Cos.Test''" by simp
  have l: "lower ''HTTPS://Cos.Test'' = ''https://cos.test''" by code_simp
  have h: "startswith (lower ''HTTPS://Cos.Test'') ''https://''"
    unfolding l by (simp add: startswith_def)
  from create_s3filesystem_endpoint [THEN conjunct1, THEN mp, OF s]
  obtain u where u: "create_s3filesystem ?r
                   = Inr \<lparr>anon = False, endpoint_url = u, key = access_key_id ?r,
                          secret = secret_access_key ?r\<rparr>
      \<and> (startswith (lower ''HTTPS://Cos.Test'') ''https://'' \<longrightarrow> u = lower ''HTTPS://Cos.Test'')
      \<and> (\<not> has_scheme (lower ''HTTPS://Cos.Test'') \<longrightarrow> u = ''https://'' @ lower ''HTTPS://Cos.Test'')" ..
  note u1 = u [THEN conjunct1]
  from u [THEN conjunct2, THEN conjunct1, THEN mp, OF h]
  have "u = ''https://cos.test''" unfolding l .
  with u1 show "create_s3filesystem ?r
     = Inr \<lparr>anon = False, endpoint_url = ''https://cos.test'', key = PStr ''AK'',
            secret = PStr ''SK''\<rparr>"
    by (simp add: example_reader_def)
next
  from create_s3filesystem_endpoint [THEN conjunct2, THEN mp, OF example_construction]
  show "\<exists>ep. stored_endpoint example_reader = PStr ep" .
qed

text \<open>
  The claim as stated, with the stored endpoint itself in the URL, is false: the letter
  case of the stored endpoint is not kept.
\<close>

theorem create_s3filesystem_counterexample:
  "stored_endpoint example_reader = PStr ''S3.Example.COM''
   \<and> create_s3filesystem example_reader
       = Inr \<lparr>anon = False, endpoint_url = ''https://s3.example.com'', key = PStr ''AK'',
              secret = PStr ''SK''\<rparr>"
  unfolding example_reader_def by code_simp

text \<open>
  An endpoint that names another scheme does not start with \<^verbatim>\<open>https://\<close> either, so it
  is prefixed as well.
\<close>

lemma create_s3filesystem_other_scheme:
  "create_s3filesystem (example_reader\<lparr>stored_endpoint := PStr ''http://cos.test''\<rparr>)
     = Inr \<lparr>anon = False, endpoint_url = ''https://http://cos.test'', key = PStr ''AK'',
            secret = PStr ''SK''\<rparr>"
  unfolding example_reader_def by code_simp

end
